theory Spec2Isabelle
  imports Complex_Main "HOL-Library.Char_ord" "HOL-Library.List_Lexorder"
begin

section \<open>Strings\<close>

text \<open>
  The program is \<^verbatim>\<open>build_balanced_result.py\<close>. A Python string is a sequence of code
  points; the model uses Isabelle strings, whose characters are the code points below 256.
  \<open>isspace\<close> is Python's \<^verbatim>\<open>str.isspace\<close> on that range, which is also what \<^verbatim>\<open>\s\<close>
  matches in a \<^verbatim>\<open>str\<close> pattern.
\<close>

definition code :: "char \<Rightarrow> nat" where
  "code c = of_char c"

definition isspace :: "char \<Rightarrow> bool" where
  "isspace c = (code c \<in> {9, 10, 11, 12, 13, 28, 29, 30, 31, 32, 133, 160})"

text \<open>\<^verbatim>\<open>s.split()\<close>: the maximal runs of non-whitespace characters, in order.\<close>

function split :: "string \<Rightarrow> string list" where
  "split [] = []"
| "split (c # cs) =
     (if isspace c then split cs
      else (c # takeWhile (\<lambda>d. \<not> isspace d) cs) # split (dropWhile (\<lambda>d. \<not> isspace d) cs))"
  by pat_completeness auto
termination
  by (relation "measure length") (auto simp: le_imp_less_Suc length_dropWhile_le)

section \<open>Vocabularies\<close>

definition STOPWORDS :: "string set" where
  "STOPWORDS = {
     ''the'', ''and'', ''of'', ''for'', ''in'', ''a'', ''an'', ''to'', ''at'', ''by'', ''on''
   }"

definition STRONG_DIFFERENTIATORS :: "string set" where
  "STRONG_DIFFERENTIATORS = {
     ''finance'', ''financial'', ''bank'', ''banking'', ''capital'', ''securities'',
     ''insurance'', ''assurance'', ''reinsurance'', ''credit'', ''leasing'', ''lending'',
     ''microfinance'', ''power'', ''steel'', ''cement'', ''chemicals'', ''petrochemicals'',
     ''polymers'', ''metals'', ''mining'', ''refinery'', ''petroleum'', ''pharma'',
     ''pharmaceutical'', ''pharmaceuticals'', ''healthcare'', ''hospitals'', ''hospital'',
     ''biotech'', ''diagnostics'', ''motors'', ''automobiles'', ''automotive'', ''aviation'',
     ''airlines'', ''shipping'', ''logistics'', ''telecom'', ''telecommunications'',
     ''media'', ''broadcasting'', ''realty'', ''construction'', ''infrastructure'',
     ''properties'', ''retail'', ''distribution'', ''foods'', ''beverages'', ''fashion'',
     ''apparel'', ''clothing'', ''education'', ''educational'', ''university'', ''academy'',
     ''agriculture'', ''agri'', ''agrochemicals'', ''seeds'', ''fertilizers'', ''textiles'',
     ''textile'', ''garments'', ''hotels'', ''hotel'', ''resort'', ''resorts'', ''holidays'',
     ''wellness'', ''electronics'', ''electrical'', ''appliances'', ''semiconductors'',
     ''life'', ''general'', ''health'', ''home''
   }"

definition BUSINESS_DIFFERENTIATORS :: "string set" where
  "BUSINESS_DIFFERENTIATORS = STRONG_DIFFERENTIATORS \<union> {
     ''industries'', ''industrial'', ''manufacturing'', ''engineering'', ''automation'',
     ''technologies'', ''technology'', ''digital'', ''software'', ''infotech'',
     ''infosystems'', ''systems'', ''computing'', ''solutions'', ''consulting'',
     ''consultancy'', ''advisory'', ''services'', ''outsourcing'', ''staffing'',
     ''recruitment'', ''entertainment'', ''communications'', ''broadband'', ''investment'',
     ''investments'', ''mutual'', ''fund'', ''asset'', ''wealth'', ''housing'',
     ''factoring'', ''consumer'', ''fmcg'', ''trading'', ''stores'', ''wholesale'',
     ''medical'', ''sciences'', ''clinical'', ''transport'', ''transportation'', ''freight'',
     ''courier'', ''developers'', ''estates'', ''learning'', ''training'', ''institute'',
     ''fertilisers'', ''pesticides'', ''fabrics'', ''oil'', ''gas'', ''energy'',
     ''renewables'', ''solar'', ''wind'', ''robotics'', ''defence'', ''defense'',
     ''aerospace'', ''amc'', ''nbfc'', ''hfc''
   }"

definition GENERIC_INDUSTRY_TERMS :: "string set" where
  "GENERIC_INDUSTRY_TERMS = {
     ''group'', ''groups'', ''company'', ''companies'', ''corporation'', ''corporate'',
     ''enterprises'', ''enterprise'', ''industries'', ''industrial'', ''industry'',
     ''international'', ''global'', ''worldwide'', ''national'', ''associates'',
     ''associate'', ''partnership'', ''partners'', ''holdings'', ''holding'', ''limited'',
     ''pvt'', ''private'', ''public'', ''division'', ''divisions'', ''unit'', ''branch'',
     ''services'', ''service'', ''solutions'', ''solution'', ''management'', ''consulting'',
     ''consultant'', ''consultants'', ''consultancy'', ''advisory'', ''advisor'',
     ''advisors'', ''products'', ''product'', ''works'', ''systems'', ''system'',
     ''operations'', ''operation'', ''hospital'', ''hospitals'', ''clinic'', ''clinics'',
     ''medical'', ''healthcare'', ''financial'', ''finance'', ''bank'', ''banking'',
     ''banks'', ''insurance'', ''assurance'', ''engineering'', ''engineers'', ''engineer'',
     ''technology'', ''technologies'', ''tech'', ''software'', ''hardware'', ''bearings'',
     ''bearing'', ''machine'', ''machines'', ''tools'', ''tool'', ''devices'', ''device'',
     ''exchange'', ''exchanges'', ''mutual'', ''fund'', ''funds'', ''electric'',
     ''electrical'', ''electronics'', ''electronic'', ''vehicles'', ''vehicle'',
     ''commercial'', ''pharma'', ''pharmaceutical'', ''pharmaceuticals'', ''drugs'',
     ''drug'', ''cement'', ''cements'', ''steel'', ''steels'', ''power'', ''energy'',
     ''motors'', ''motor'', ''oil'', ''gas'', ''chemicals'', ''chemical'', ''paints'',
     ''paint'', ''textiles'', ''textile'', ''retail'', ''stores'', ''store'', ''foods'',
     ''food'', ''beverages'', ''beverage'', ''logistics'', ''transport'', ''transportation'',
     ''construction'', ''infrastructure'', ''telecom'', ''telecommunications'', ''media'',
     ''broadcasting'', ''digital'', ''automation'', ''research'', ''development'',
     ''laboratory'', ''laboratories'', ''lab'', ''labs'', ''manufacturing'',
     ''manufacturer'', ''manufacturers'', ''trading'', ''traders'', ''distribution'',
     ''distributors'', ''distributor'', ''marketing'', ''sales'', ''stock'', ''investment'',
     ''investments'', ''securities'', ''capital'', ''credit'', ''lending'', ''leasing'',
     ''housing'', ''asset'', ''wealth'', ''consumer'', ''petroleum'', ''petrochemicals'',
     ''petrochemical'', ''polymers'', ''plastics'', ''rubber'', ''metals'', ''mining'',
     ''refinery'', ''refineries'', ''semiconductors'', ''diagnostics'', ''biotech'',
     ''biotechnology'', ''aerospace'', ''defence'', ''defense'', ''shipping'', ''freight'',
     ''courier'', ''airlines'', ''aviation'', ''seeds'', ''fertilizers'', ''fertilisers'',
     ''garments'', ''apparel'', ''fashion'', ''fabrics'', ''realty'', ''properties'',
     ''property'', ''estates'', ''estate'', ''education'', ''educational'', ''training'',
     ''learning'', ''institute'', ''institution'', ''institutions'', ''academy'',
     ''university'', ''college'', ''school'', ''india'', ''indian'', ''armed'', ''forces'',
     ''force'', ''air'', ''army'', ''navy'', ''chamber'', ''commerce'', ''ministry'',
     ''department'', ''government'', ''govt'', ''independent'', ''professional'',
     ''professionals'', ''regional'', ''area'', ''senior'', ''junior'', ''manager'',
     ''managers'', ''director'', ''directors'', ''head'', ''officer'', ''executive'',
     ''facilities'', ''facility'', ''network'', ''networks'', ''communications'',
     ''communication'', ''broadband'', ''wireless'', ''computing'', ''outsourcing'',
     ''staffing'', ''recruitment'', ''entertainment'', ''supply'', ''chain'',
     ''procurement'', ''developers'', ''developer'', ''advanced'', ''integrated'', ''small'',
     ''micro'', ''mini'', ''new'', ''sector'', ''council'', ''authority'', ''board'',
     ''commission'', ''organization'', ''organisation'', ''federation'', ''association'',
     ''society'', ''trust'', ''foundation'', ''welfare''
   }"

section \<open>Similarity of two tokens\<close>

text \<open>
  \<^verbatim>\<open>fuzz.ratio\<close> belongs to the rapidfuzz library, not to this program. The library
  documents it as the normalised Indel similarity scaled to 0..100: with \<open>d\<close> the number of
  insertions and deletions that turn one string into the other, which is the sum of the
  lengths less twice the length of a longest common subsequence, the ratio is
  \<open>100 * (1 - d / (len a + len b))\<close>, and 100 for two empty strings.
\<close>

fun lcs :: "string \<Rightarrow> string \<Rightarrow> nat" where
  "lcs [] ys = 0"
| "lcs (x # xs) [] = 0"
| "lcs (x # xs) (y # ys) =
     (if x = y then Suc (lcs xs ys) else max (lcs xs (y # ys)) (lcs (x # xs) ys))"

definition indel_distance :: "string \<Rightarrow> string \<Rightarrow> nat" where
  "indel_distance a b = length a + length b - 2 * lcs a b"

definition fuzz_ratio :: "string \<Rightarrow> string \<Rightarrow> real" where
  "fuzz_ratio a b =
     (if length a + length b = 0 then 100
      else 100 * (1 - real (indel_distance a b) / real (length a + length b)))"

section \<open>Sets of tokens\<close>

text \<open>
  A Python set of strings is a list without duplicates. Python iterates over such a set in
  the order of the strings' hashes, which changes from run to run; the two loops whose
  result depends on that order take it as the parameter \<open>it\<close>, which maps the set to the
  sequence in which the loop visits it.
\<close>

type_synonym set_order = "string list \<Rightarrow> string list"

definition inter :: "string list \<Rightarrow> string list \<Rightarrow> string list" where
  "inter xs ys = filter (\<lambda>t. t \<in> set ys) xs"

definition diff :: "string list \<Rightarrow> string list \<Rightarrow> string list" where
  "diff xs ys = filter (\<lambda>t. t \<notin> set ys) xs"

text \<open>\<^verbatim>\<open>_significant_tokens\<close>: all non-stopword tokens with length > 1.\<close>

definition significant_tokens :: "string \<Rightarrow> string list" where
  "significant_tokens s = filter (\<lambda>t. t \<notin> STOPWORDS \<and> length t > 1) (split s)"

section \<open>Business-line conflicts\<close>

text \<open>
  The inner loop of the typo matching: the first \<open>tb\<close> of \<open>only_b\<close>, in iteration order, that
  is not matched yet and is close to \<open>ta\<close>.
\<close>

definition first_match :: "string \<Rightarrow> string list \<Rightarrow> string list \<Rightarrow> string option" where
  "first_match ta only_b matched_b =
     List.find (\<lambda>tb. tb \<notin> set matched_b \<and> fuzz_ratio ta tb \<ge> 80) only_b"

text \<open>
  The outer loop in \<^verbatim>\<open>has_business_conflict\<close>; the state is \<open>(real_only_a, matched_b)\<close>.
\<close>

fun typo_fold :: "string list \<Rightarrow> string list \<Rightarrow> string list \<times> string list
    \<Rightarrow> string list \<times> string list" where
  "typo_fold [] only_b (real_only_a, matched_b) = (real_only_a, matched_b)"
| "typo_fold (ta # rest) only_b (real_only_a, matched_b) =
     (case first_match ta only_b matched_b of
        Some tb \<Rightarrow> typo_fold rest only_b (real_only_a, matched_b @ [tb])
      | None \<Rightarrow> typo_fold rest only_b (real_only_a @ [ta], matched_b))"

definition has_business_conflict :: "set_order \<Rightarrow> string \<Rightarrow> string \<Rightarrow> real \<Rightarrow> bool" where
  "has_business_conflict it norm_a norm_b score =
     (let tokens_a = remdups (significant_tokens norm_a);
          tokens_b = remdups (significant_tokens norm_b);
          shared = inter tokens_a tokens_b
      in if shared = [] then False
         else
           let only_a = diff tokens_a tokens_b;
               only_b = diff tokens_b tokens_a
           in if only_a = [] \<and> only_b = [] then False
              else
                let (real_only_a, matched_b) = typo_fold (it only_a) (it only_b) ([], []);
                    real_only_b = diff only_b matched_b
                in if real_only_a = [] \<and> real_only_b = [] then False
                   else if real_only_a = [] \<or> real_only_b = [] then
                     (let extra = real_only_a @ real_only_b
                      in if set extra \<inter> STRONG_DIFFERENTIATORS \<noteq> {} then score < 0.93
                         else False)
                   else
                     let has_biz_a = (set real_only_a \<inter> BUSINESS_DIFFERENTIATORS \<noteq> {});
                         has_biz_b = (set real_only_b \<inter> BUSINESS_DIFFERENTIATORS \<noteq> {})
                     in if has_biz_a \<or> has_biz_b then score < 0.95
                        else score < 0.90)"

section \<open>The merge decision\<close>

definition MERGE_THRESHOLD :: real where
  "MERGE_THRESHOLD = 0.80"

definition AUTO_MERGE_THRESHOLD :: real where
  "AUTO_MERGE_THRESHOLD = 0.91"

text \<open>
  The typo matching inside \<^verbatim>\<open>should_merge\<close> (generic industry-term protection); the
  state is \<open>(fuzzy_a, matched_b)\<close>.
\<close>

fun generic_fold :: "string list \<Rightarrow> string list \<Rightarrow> string list \<times> string list
    \<Rightarrow> string list \<times> string list" where
  "generic_fold [] only_b (fuzzy_a, matched_b) = (fuzzy_a, matched_b)"
| "generic_fold (ta # rest) only_b (fuzzy_a, matched_b) =
     (case first_match ta only_b matched_b of
        Some tb \<Rightarrow> generic_fold rest only_b (fuzzy_a @ [ta], matched_b @ [tb])
      | None \<Rightarrow> generic_fold rest only_b (fuzzy_a, matched_b))"

text \<open>
  The generic industry-term protection of \<^verbatim>\<open>should_merge\<close>: true when that block
  returns \<^verbatim>\<open>False\<close> from the function, false when control falls through it.
\<close>

definition generic_term_block :: "set_order \<Rightarrow> string list \<Rightarrow> string list \<Rightarrow> real \<Rightarrow> bool" where
  "generic_term_block it tokens_a tokens_b score =
     (let set_a = remdups tokens_a;
          set_b = remdups tokens_b;
          shared = inter set_a set_b
      in if shared \<noteq> [] then
           (let distinctive_shared = filter (\<lambda>t. t \<notin> GENERIC_INDUSTRY_TERMS) shared
            in if distinctive_shared = [] then
                 (let only_a = diff set_a set_b;
                      only_b = diff set_b set_a;
                      (fuzzy_a, matched_b) = generic_fold (it only_a) (it only_b) ([], []);
                      real_only_a = diff only_a fuzzy_a;
                      real_only_b = diff only_b matched_b
                  in if real_only_a = [] \<and> real_only_b = [] then False
                     else if real_only_a \<noteq> [] \<and> real_only_b \<noteq> [] then True
                     else
                       (let extra = real_only_a @ real_only_b;
                            has_distinctive_extra =
                              (\<exists>tok \<in> set extra. tok \<notin> GENERIC_INDUSTRY_TERMS)
                        in has_distinctive_extra \<and> score < 0.95))
               else False)
         else False)"

text \<open>The medium-confidence test at the end of \<^verbatim>\<open>should_merge\<close>.\<close>

definition token_overlap :: "string list \<Rightarrow> string list \<Rightarrow> bool" where
  "token_overlap tokens_a tokens_b =
     (let set_a = remdups tokens_a;
          set_b = remdups tokens_b
      in if set set_a = set set_b then True
         else
           let matches = length (filter (\<lambda>ta. \<exists>tb \<in> set set_b. fuzz_ratio ta tb \<ge> 80) set_a);
               max_len = max (length set_a) (length set_b)
           in if max_len = 0 then False
              else real matches / real max_len \<ge> 0.65)"

definition should_merge :: "set_order \<Rightarrow> string \<Rightarrow> string \<Rightarrow> real \<Rightarrow> bool" where
  "should_merge it norm_a norm_b score =
     (if score < MERGE_THRESHOLD then False
      else if norm_a = norm_b then True
      else
        let tokens_a = significant_tokens norm_a;
            tokens_b = significant_tokens norm_b;
            min_tokens = min (length tokens_a) (length tokens_b)
        in if min_tokens \<le> 1 \<and> score < 0.95 then False
           else if generic_term_block it tokens_a tokens_b score then False
           else if has_business_conflict it norm_a norm_b score then False
           else if score \<ge> AUTO_MERGE_THRESHOLD then True
           else token_overlap tokens_a tokens_b)"

text \<open>
  An iteration order is admissible when it visits every element of a set once.
\<close>

definition order_ok :: "set_order \<Rightarrow> bool" where
  "order_ok it = (\<forall>xs. distinct xs \<longrightarrow> set (it xs) = set xs \<and> distinct (it xs))"

text \<open>
  The medium-confidence rule as the specification words it, for comparison with
  \<open>token_overlap\<close>: the token sets are equal, or at least 65% of the members of the smaller
  token set have a counterpart with character ratio at least 80 in the other set.
\<close>

definition spec_token_overlap :: "string list \<Rightarrow> string list \<Rightarrow> bool" where
  "spec_token_overlap tokens_a tokens_b =
     (let set_a = remdups tokens_a;
          set_b = remdups tokens_b;
          small = (if length set_a \<le> length set_b then set_a else set_b);
          other = (if length set_a \<le> length set_b then set_b else set_a);
          close = length (filter (\<lambda>t. \<exists>u \<in> set other. fuzz_ratio t u \<ge> 80) small)
      in set set_a = set set_b \<or> 0.65 * real (length small) \<le> real close)"

section \<open>Scoring a pair\<close>

text \<open>
  \<^verbatim>\<open>composite_score\<close> combines four rapidfuzz metrics. \<^verbatim>\<open>fuzz.ratio\<close> is \<open>fuzz_ratio\<close>
  above; the other three are library functions that the model takes as they come.
\<close>

record metrics =
  token_sort_ratio :: "string \<Rightarrow> string \<Rightarrow> real"
  token_set_ratio :: "string \<Rightarrow> string \<Rightarrow> real"
  partial_ratio :: "string \<Rightarrow> string \<Rightarrow> real"

definition composite_score :: "metrics \<Rightarrow> string \<Rightarrow> string \<Rightarrow> real" where
  "composite_score fuzz a b =
     (if a = [] \<or> b = [] then 0.0
      else
        let tsr = token_sort_ratio fuzz a b / 100.0;
            tse = token_set_ratio fuzz a b / 100.0;
            rat = fuzz_ratio a b / 100.0;
            par = partial_ratio fuzz a b / 100.0
        in 0.30 * tsr + 0.25 * tse + 0.30 * rat + 0.15 * par)"

text \<open>The library returns scores between 0 and 100.\<close>

definition metrics_bounded :: "metrics \<Rightarrow> bool" where
  "metrics_bounded fuzz =
     (\<forall>a b. 0 \<le> token_sort_ratio fuzz a b \<and> token_sort_ratio fuzz a b \<le> 100
          \<and> 0 \<le> token_set_ratio fuzz a b \<and> token_set_ratio fuzz a b \<le> 100
          \<and> 0 \<le> partial_ratio fuzz a b \<and> partial_ratio fuzz a b \<le> 100)"

text \<open>
  What the scoring loop of \<^verbatim>\<open>main\<close> decides for one candidate pair with normalised names
  \<open>na\<close> and \<open>nb\<close>: a pair with an empty name is skipped, an exact match is united before any
  score is computed, and every other pair is united when \<^verbatim>\<open>should_merge\<close> accepts its
  composite score.
\<close>

definition pair_united :: "metrics \<Rightarrow> set_order \<Rightarrow> string \<Rightarrow> string \<Rightarrow> bool" where
  "pair_united fuzz it na nb =
     (if na = [] \<or> nb = [] then False
      else if na = nb then True
      else should_merge it na nb (composite_score fuzz na nb))"


section \<open>Character classes and regular expressions\<close>

text \<open>
  The character classes of Python's \<^verbatim>\<open>re\<close> module for \<^verbatim>\<open>str\<close> patterns, on the code points
  below 256: \<^verbatim>\<open>\d\<close> is a decimal digit, \<^verbatim>\<open>\w\<close> is an alphanumeric character or the
  underscore. \<open>to_lower\<close> is \<^verbatim>\<open>str.lower\<close> on one character.
\<close>

definition in_range :: "char \<Rightarrow> nat \<Rightarrow> nat \<Rightarrow> bool" where
  "in_range d lo hi = (lo \<le> code d \<and> code d \<le> hi)"

definition isdigit :: "char \<Rightarrow> bool" where
  "isdigit d = in_range d 48 57"

definition isword :: "char \<Rightarrow> bool" where
  "isword d =
     (in_range d 48 57 \<or> in_range d 65 90 \<or> d = CHR ''_'' \<or> in_range d 97 122
      \<or> code d \<in> {170, 178, 179, 181, 185, 186, 188, 189, 190}
      \<or> in_range d 192 214 \<or> in_range d 216 246 \<or> in_range d 248 255)"

definition to_lower :: "char \<Rightarrow> char" where
  "to_lower d =
     (if in_range d 65 90 \<or> in_range d 192 214 \<or> in_range d 216 222
      then char_of (code d + 32) else d)"

text \<open>
  The patterns that are only matched against a string, never substituted, are terms of a
  datatype of regular expressions; \<open>matches r s\<close> tells whether \<open>r\<close> matches the whole of
  \<open>s\<close>, and is computed with derivatives.
\<close>

datatype rx = Nul | Eps | Cls "char \<Rightarrow> bool" | Seq rx rx | Alt rx rx | Star rx

fun nullable :: "rx \<Rightarrow> bool" where
  "nullable Nul = False"
| "nullable Eps = True"
| "nullable (Cls P) = False"
| "nullable (Seq r s) = (nullable r \<and> nullable s)"
| "nullable (Alt r s) = (nullable r \<or> nullable s)"
| "nullable (Star r) = True"

text \<open>Alternative and sequence that drop the empty language where it cannot contribute.\<close>

fun mk_alt :: "rx \<Rightarrow> rx \<Rightarrow> rx" where
  "mk_alt Nul r = r"
| "mk_alt r Nul = r"
| "mk_alt r s = Alt r s"

fun mk_seq :: "rx \<Rightarrow> rx \<Rightarrow> rx" where
  "mk_seq Nul r = Nul"
| "mk_seq r Nul = Nul"
| "mk_seq Eps r = r"
| "mk_seq r s = Seq r s"

fun deriv :: "char \<Rightarrow> rx \<Rightarrow> rx" where
  "deriv c Nul = Nul"
| "deriv c Eps = Nul"
| "deriv c (Cls P) = (if P c then Eps else Nul)"
| "deriv c (Seq r s) =
     (if nullable r then mk_alt (mk_seq (deriv c r) s) (deriv c s)
      else mk_seq (deriv c r) s)"
| "deriv c (Alt r s) = mk_alt (deriv c r) (deriv c s)"
| "deriv c (Star r) = mk_seq (deriv c r) (Star r)"

fun matches :: "rx \<Rightarrow> string \<Rightarrow> bool" where
  "matches r [] = nullable r"
| "matches r (c # cs) = matches (deriv c r) cs"

text \<open>
  The notation of the patterns: \<^verbatim>\<open>r?\<close>, \<^verbatim>\<open>r+\<close>, a literal text, a literal text under
  \<^verbatim>\<open>re.IGNORECASE\<close> (given in lower case), a sequence, an alternation, and \<^verbatim>\<open>$\<close>, which
  in Python holds at the end of the string and also just before a newline that ends the
  string.
\<close>

definition optional :: "rx \<Rightarrow> rx" where
  "optional r = Alt r Eps"

definition many1 :: "rx \<Rightarrow> rx" where
  "many1 r = Seq r (Star r)"

definition lit :: "string \<Rightarrow> rx" where
  "lit s = foldr (\<lambda>c r. Seq (Cls (\<lambda>d. d = c)) r) s Eps"

definition cilit :: "string \<Rightarrow> rx" where
  "cilit s = foldr (\<lambda>c r. Seq (Cls (\<lambda>d. to_lower d = c)) r) s Eps"

definition seqs :: "rx list \<Rightarrow> rx" where
  "seqs rs = foldr Seq rs Eps"

definition alts :: "rx list \<Rightarrow> rx" where
  "alts rs = foldr Alt rs Nul"

definition eol :: rx where
  "eol = optional (Cls (\<lambda>d. d = CHR 0x0A))"

text \<open>The language of a regular expression, against which the matcher is verified.\<close>

inductive_set star :: "string set \<Rightarrow> string set" for A :: "string set" where
  star_empty: "[] \<in> star A"
| star_step: "u \<in> A \<Longrightarrow> v \<in> star A \<Longrightarrow> u @ v \<in> star A"

fun lang :: "rx \<Rightarrow> string set" where
  "lang Nul = {}"
| "lang Eps = {[]}"
| "lang (Cls P) = {[c] | c. P c}"
| "lang (Seq r s) = {u @ v | u v. u \<in> lang r \<and> v \<in> lang s}"
| "lang (Alt r s) = lang r \<union> lang s"
| "lang (Star r) = star (lang r)"


section \<open>Garbage detection\<close>

text \<open>
  The patterns of \<^verbatim>\<open>classify_garbage\<close>. Each is used with \<^verbatim>\<open>match\<close> and starts with \<^verbatim>\<open>^\<close>,
  so it is tested against the whole string. The dashes beyond code point 255 that the role
  pattern allows cannot occur in a string of the model and are left out.
\<close>

definition SPECIAL_ONLY_RE :: rx where
  "SPECIAL_ONLY_RE =
     seqs [many1 (Cls (\<lambda>d. \<not> (in_range d 97 122 \<or> in_range d 65 90 \<or> in_range d 48 57 \<or> in_range d 192 255))),
       eol]"

definition NUMERIC_ONLY_RE :: rx where
  "NUMERIC_ONLY_RE =
     seqs [many1 (Cls (\<lambda>d. in_range d 48 57)), eol]"

definition PLACEHOLDER_RE :: rx where
  "PLACEHOLDER_RE =
     seqs [alts [cilit ''test'', cilit ''testing'', cilit ''unknown'', seqs [cilit ''n'',
       optional (cilit ''/''), cilit ''a''], cilit ''none'', cilit ''null'', cilit ''na'',
       cilit ''tbd'', cilit ''temp'', cilit ''temporary'', cilit ''sample'', cilit ''dummy'',
       cilit ''xxx'', cilit ''zzz'', cilit ''abc'', cilit ''asdf'', cilit ''qwerty'',
       seqs [cilit ''company'', Star (Cls isspace), Star (Cls isdigit)], seqs [cilit ''no'',
       Star (Cls isspace), cilit ''company''], seqs [cilit ''not'', Star (Cls isspace),
       cilit ''applicable''], cilit ''confidential'', cilit ''private'', cilit ''personal'',
       seqs [cilit ''do'', Star (Cls isspace), cilit ''not'', Star (Cls isspace), cilit ''use''],
       cilit ''delete'', cilit ''removed'', cilit ''undefined'', cilit ''current'',
       cilit ''present'', cilit ''same'', seqs [cilit ''same'', many1 (Cls isspace),
       cilit ''as'', many1 (Cls isspace), cilit ''above''], seqs [cilit ''as'',
       many1 (Cls isspace), cilit ''above''], cilit ''ditto'', cilit ''above'', cilit ''below'',
       cilit ''various'', cilit ''multiple'', cilit ''several'', cilit ''many'', cilit ''other'',
       cilit ''others'', cilit ''etc'', cilit ''misc'', cilit ''miscellaneous''], eol]"

definition JOB_TITLE_RE :: rx where
  "JOB_TITLE_RE =
     seqs [alts [cilit ''consultant'', cilit ''advisor'', cilit ''manager'',
       cilit ''director'', cilit ''engineer'', cilit ''analyst'', cilit ''developer'',
       cilit ''designer'', cilit ''architect'', cilit ''teacher'', cilit ''professor'',
       cilit ''lecturer'', cilit ''doctor'', cilit ''lawyer'', cilit ''advocate'',
       cilit ''attorney'', cilit ''accountant'', cilit ''auditor'', cilit ''trainer'',
       cilit ''coach'', cilit ''mentor'', cilit ''tutor'', cilit ''instructor'',
       cilit ''volunteer'', cilit ''intern'', cilit ''trainee'', cilit ''apprentice'',
       cilit ''partner'', cilit ''founder'', seqs [cilit ''co'', optional (cilit ''-''),
       Star (Cls isspace), cilit ''founder''], cilit ''entrepreneur'', cilit ''ceo'',
       cilit ''cto'', cilit ''cfo'', cilit ''coo'', cilit ''cio'', cilit ''cmo'', cilit ''vp'',
       cilit ''svp'', cilit ''evp'', cilit ''md'', cilit ''gm''], optional (cilit ''s''), eol]"

definition ROLE_PATTERN_RE :: rx where
  "ROLE_PATTERN_RE =
     seqs [many1 (seqs [alts [cilit ''regional'', cilit ''branch'', cilit ''area'',
       cilit ''district'', cilit ''territory'', cilit ''zone'', cilit ''zonal'',
       cilit ''national'', cilit ''global'', cilit ''category'', cilit ''channel'',
       cilit ''senior'', cilit ''junior'', cilit ''assistant'', cilit ''deputy'',
       cilit ''chief'', cilit ''associate'', cilit ''executive'', cilit ''general'',
       cilit ''central'', seqs [cilit ''key'', many1 (Cls isspace), cilit ''account'']],
       many1 (Cls isspace)]), Star (seqs [alts [cilit ''sales'', cilit ''marketing'',
       cilit ''business'', cilit ''service'', cilit ''product'', cilit ''project'',
       cilit ''operations'', cilit ''hr'', cilit ''human'', cilit ''resource'',
       cilit ''finance'', cilit ''technical'', cilit ''commercial'', cilit ''customer'',
       cilit ''legal'', cilit ''supply'', cilit ''procurement'', cilit ''logistics'',
       cilit ''it'', cilit ''digital''], many1 (Cls isspace)]), alts [cilit ''manager'',
       cilit ''director'', cilit ''head'', cilit ''leader'', cilit ''officer'',
       cilit ''supervisor'', cilit ''coordinator'', cilit ''executive'', cilit ''president'',
       cilit ''counsel''], optional (cilit ''s''), Star (seqs [Star (Cls isspace),
       Cls (\<lambda>d. d = CHR ''-''), Star (Cls isspace), many1 (Cls isword)]), eol]"

definition INDEPENDENT_RE :: rx where
  "INDEPENDENT_RE =
     seqs [cilit ''independent'', many1 (Cls isspace), alts [cilit ''consultant'',
       cilit ''contractor'', cilit ''advisor'', cilit ''professional'', cilit ''practitioner'',
       cilit ''researcher'', cilit ''developer'', cilit ''designer'', cilit ''engineer''],
       optional (cilit ''s''), eol]"

definition NON_COMPANY_WORDS :: rx where
  "NON_COMPANY_WORDS =
     alts [seqs [cilit ''freelanc'', Star (Cls isword)], seqs [cilit ''self'',
       optional (Cls (\<lambda>d. isspace d \<or> d = CHR ''-'')), cilit ''employ'',
       Star (Cls isword)], seqs [cilit ''unemploy'', Star (Cls isword)], cilit ''retired'',
       cilit ''retirement'', cilit ''student'', cilit ''homemaker'', cilit ''housewife'',
       seqs [cilit ''looking'', many1 (Cls isspace), cilit ''for'', many1 (Cls isspace),
       alts [cilit ''job'', cilit ''work'', cilit ''opportunit'', seqs [cilit ''a'',
       many1 (Cls isspace), cilit ''job'']]], seqs [cilit ''job'', many1 (Cls isspace),
       cilit ''seek'', Star (Cls isword)], seqs [cilit ''between'', many1 (Cls isspace),
       cilit ''jobs''], seqs [cilit ''career'', many1 (Cls isspace), cilit ''break''],
       seqs [cilit ''open'', many1 (Cls isspace), cilit ''to'', many1 (Cls isspace),
       cilit ''work''], seqs [cilit ''actively'', many1 (Cls isspace), cilit ''seeking'']]"

text \<open>
  \<^verbatim>\<open>_NON_COMPANY_RE\<close> is used with \<^verbatim>\<open>search\<close>: one of the phrases occurs at the start of
  the string, or after a whitespace character, or after a middle dot and any whitespace.
\<close>

definition NON_COMPANY_RE :: rx where
  "NON_COMPANY_RE =
     seqs [optional (seqs [Star (Cls (\<lambda>d. True)),
             alts [Cls isspace, seqs [Cls (\<lambda>d. d = CHR 0xB7), Star (Cls isspace)]]]),
           NON_COMPANY_WORDS, Star (Cls (\<lambda>d. True))]"

text \<open>
  The reasons, in the order in which \<^verbatim>\<open>classify_garbage\<close> tests them. The source returns
  them as the strings \<^verbatim>\<open>empty\<close>, \<^verbatim>\<open>too_short (n chars)\<close>, \<^verbatim>\<open>special_chars_only\<close>,
  \<^verbatim>\<open>numeric_only\<close>, \<^verbatim>\<open>placeholder\<close>, \<^verbatim>\<open>job_title_not_company\<close>, \<^verbatim>\<open>job_role_not_company\<close>,
  \<^verbatim>\<open>independent_not_company\<close> and \<^verbatim>\<open>non_company (freelance/self-employed/student/etc)\<close>,
  and \<^verbatim>\<open>None\<close> for a valid name.
\<close>

datatype reason =
    Empty
  | Too_short nat
  | Special_chars_only
  | Numeric_only
  | Placeholder
  | Job_title_not_company
  | Job_role_not_company
  | Independent_not_company
  | Non_company

definition classify_garbage :: "string \<Rightarrow> reason option" where
  "classify_garbage cleaned =
     (if cleaned = [] then Some Empty
      else if length cleaned \<le> 2 then Some (Too_short (length cleaned))
      else if matches SPECIAL_ONLY_RE cleaned then Some Special_chars_only
      else if matches NUMERIC_ONLY_RE cleaned then Some Numeric_only
      else if matches PLACEHOLDER_RE cleaned then Some Placeholder
      else if matches JOB_TITLE_RE cleaned then Some Job_title_not_company
      else if matches ROLE_PATTERN_RE cleaned then Some Job_role_not_company
      else if matches INDEPENDENT_RE cleaned then Some Independent_not_company
      else if matches NON_COMPANY_RE cleaned then Some Non_company
      else None)"


section \<open>Substitution of a pattern\<close>

text \<open>
  The patterns that the program substitutes with \<^verbatim>\<open>re.sub\<close> are alternatives of sequences of
  items: a word boundary \<^verbatim>\<open>\b\<close>, the start \<^verbatim>\<open>^\<close>, the end \<^verbatim>\<open>$\<close>, one character of a
  class, and a greedy repetition of a class between a lower and an optional upper bound.
  \<open>bt items p s\<close> is Python's backtracking match of the sequence \<open>items\<close> at a position
  where \<open>s\<close> is the rest of the string and \<open>p\<close> the character before it (\<open>None\<close> at the
  start); the result is the length of the match. A repetition tries the longest count
  first.
\<close>

datatype item = Bnd | Bol | Eol | One "char \<Rightarrow> bool" | Rep nat "nat option" "char \<Rightarrow> bool"

type_synonym pattern = "item list list"

fun first_some :: "'a option list \<Rightarrow> 'a option" where
  "first_some [] = None"
| "first_some (None # xs) = first_some xs"
| "first_some (Some x # xs) = Some x"

definition word_before :: "char option \<Rightarrow> bool" where
  "word_before p = (case p of None \<Rightarrow> False | Some c \<Rightarrow> isword c)"

definition word_after :: "string \<Rightarrow> bool" where
  "word_after s = (case s of [] \<Rightarrow> False | c # _ \<Rightarrow> isword c)"

fun bt :: "item list \<Rightarrow> char option \<Rightarrow> string \<Rightarrow> nat option" where
  "bt [] p s = Some 0"
| "bt (Bnd # items) p s = (if word_before p \<noteq> word_after s then bt items p s else None)"
| "bt (Bol # items) p s = (if p = None then bt items p s else None)"
| "bt (Eol # items) p s = (if s = [] \<or> s = [CHR 0x0A] then bt items p s else None)"
| "bt (One P # items) p [] = None"
| "bt (One P # items) p (c # cs) =
     (if P c then map_option Suc (bt items (Some c) cs) else None)"
| "bt (Rep lo hi P # items) p s =
     (let n = length (takeWhile P s);
          m = (case hi of None \<Rightarrow> n | Some h \<Rightarrow> min h n)
      in first_some
           (map (\<lambda>k. map_option (\<lambda>j. k + j)
                        (bt items (if k = 0 then p else Some (s ! (k - 1))) (drop k s)))
                (rev [lo ..< Suc m])))"

text \<open>The first alternative of the pattern that matches at the position decides.\<close>

definition match_at :: "pattern \<Rightarrow> char option \<Rightarrow> string \<Rightarrow> nat option" where
  "match_at pat p s = first_some (map (\<lambda>items. bt items p s) pat)"

text \<open>
  \<^verbatim>\<open>re.sub\<close>: the string is scanned from the left; where the pattern matches, the match
  is replaced by \<open>repl\<close> of the matched text and the scan goes on behind it. \<open>k\<close> counts the
  characters of a match that are still to be skipped. None of the program's patterns
  matches the empty string, so an empty match is no match.
\<close>

fun sub_scan :: "pattern \<Rightarrow> (string \<Rightarrow> string) \<Rightarrow> char option \<Rightarrow> nat \<Rightarrow> string \<Rightarrow> string" where
  "sub_scan pat repl p k [] = []"
| "sub_scan pat repl p k (c # cs) =
     (if k > 0 then sub_scan pat repl (Some c) (k - 1) cs
      else case match_at pat p (c # cs) of
             Some (Suc n) \<Rightarrow> repl (take (Suc n) (c # cs)) @ sub_scan pat repl (Some c) n cs
           | _ \<Rightarrow> c # sub_scan pat repl (Some c) 0 cs)"

definition re_sub :: "pattern \<Rightarrow> (string \<Rightarrow> string) \<Rightarrow> string \<Rightarrow> string" where
  "re_sub pat repl s = sub_scan pat repl None 0 s"

text \<open>A literal text under \<^verbatim>\<open>re.IGNORECASE\<close>, a literal dot and an optional dot.\<close>

definition ilit :: "string \<Rightarrow> item list" where
  "ilit s = map (\<lambda>c. One (\<lambda>d. to_lower d = c)) s"

definition dot :: item where
  "dot = One (\<lambda>d. d = CHR ''.'')"

definition odot :: item where
  "odot = Rep 0 (Some 1) (\<lambda>d. d = CHR ''.'')"

text \<open>\<^verbatim>\<open>s.strip()\<close> and \<^verbatim>\<open>s.lower()\<close>.\<close>

definition strip :: "string \<Rightarrow> string" where
  "strip s = rev (dropWhile isspace (rev (dropWhile isspace s)))"

definition lower :: "string \<Rightarrow> string" where
  "lower s = map to_lower s"

section \<open>Normalisation\<close>

definition LEGAL_SUFFIX_RE :: pattern where
  "LEGAL_SUFFIX_RE =
     [[Bnd] @ ilit ''incorporated'' @ [Bnd],
      [Bnd] @ ilit ''inc'' @ [Bnd, odot],
      [Bnd] @ ilit ''llc'' @ [Bnd, odot],
      [Bnd] @ ilit ''l'' @ [dot] @ ilit ''l'' @ [dot] @ ilit ''c'' @ [odot],
      [Bnd] @ ilit ''limited'' @ [Bnd],
      [Bnd] @ ilit ''ltd'' @ [Bnd, odot],
      [Bnd] @ ilit ''corporation'' @ [Bnd],
      [Bnd] @ ilit ''corp'' @ [Bnd, odot],
      [Bnd] @ ilit ''co'' @ [Bnd, odot],
      [Bnd] @ ilit ''plc'' @ [Bnd, odot],
      [Bnd] @ ilit ''gmbh'' @ [Bnd],
      [Bnd] @ ilit ''ag'' @ [Bnd],
      [Bnd] @ ilit ''s'' @ [odot] @ ilit ''a'' @ [odot, Bnd],
      [Bnd] @ ilit ''n'' @ [odot] @ ilit ''v'' @ [odot, Bnd],
      [Bnd] @ ilit ''pvt'' @ [Bnd, odot],
      [Bnd] @ ilit ''private'' @ [Bnd],
      [Bnd] @ ilit ''l'' @ [odot] @ ilit ''p'' @ [odot, Bnd],
      [Bnd] @ ilit ''llp'' @ [Bnd, odot]]"

text \<open>
  \<^verbatim>\<open>_AMPERSAND_ACRONYM_RE\<close> is \<^verbatim>\<open>\b([A-Za-z]{1,3})\s*&\s*([A-Za-z]{1,3})\b\<close>. Its match
  consists of the two groups of letters, whitespace and the ampersand, so the replacement
  \<^verbatim>\<open>m.group(1) + m.group(2)\<close> is the letters of the match.
\<close>

definition ascii_letter :: "char \<Rightarrow> bool" where
  "ascii_letter d = (in_range d 65 90 \<or> in_range d 97 122)"

definition AMPERSAND_ACRONYM_RE :: pattern where
  "AMPERSAND_ACRONYM_RE =
     [[Bnd, Rep 1 (Some 3) ascii_letter, Rep 0 None isspace, One (\<lambda>d. d = CHR ''&''),
       Rep 0 None isspace, Rep 1 (Some 3) ascii_letter, Bnd]]"

text \<open>\<^verbatim>\<open>s.replace("&", " and ")\<close>.\<close>

definition replace_amp :: "string \<Rightarrow> string" where
  "replace_amp s = concat (map (\<lambda>c. if c = CHR ''&'' then '' and '' else [c]) s)"

text \<open>The patterns \<^verbatim>\<open>[^\w\s]\<close>, \<^verbatim>\<open>\s+\<close>, \<^verbatim>\<open>^the\s+\<close> and \<^verbatim>\<open>\s+the$\<close>.\<close>

definition NOT_WORD_SPACE :: pattern where
  "NOT_WORD_SPACE = [[One (\<lambda>d. \<not> (isword d \<or> isspace d))]]"

definition SPACES :: pattern where
  "SPACES = [[Rep 1 None isspace]]"

definition LEADING_THE :: pattern where
  "LEADING_THE = [[Bol] @ map (\<lambda>c. One (\<lambda>d. d = c)) ''the'' @ [Rep 1 None isspace]]"

definition TRAILING_THE :: pattern where
  "TRAILING_THE = [[Rep 1 None isspace] @ map (\<lambda>c. One (\<lambda>d. d = c)) ''the'' @ [Eol]]"

definition normalize :: "string \<Rightarrow> string" where
  "normalize label =
     (if label = [] then []
      else
        let s = strip (lower label);
            s = re_sub AMPERSAND_ACRONYM_RE (filter ascii_letter) s;
            s = replace_amp s;
            s = re_sub NOT_WORD_SPACE (\<lambda>m. '' '') s;
            s = strip (re_sub SPACES (\<lambda>m. '' '') s);
            s = re_sub LEGAL_SUFFIX_RE (\<lambda>m. []) s;
            s = re_sub LEADING_THE (\<lambda>m. []) s;
            s = re_sub TRAILING_THE (\<lambda>m. []) s;
            s = strip (re_sub SPACES (\<lambda>m. '' '') s)
        in s)"


section \<open>Cleaning of a label\<close>

text \<open>
  The patterns of \<^verbatim>\<open>clean_name\<close>. Characters beyond code point 255 in the two classes of
  junk characters are left out, as they cannot occur in a string of the model. An
  alternation inside a pattern that ends with \<^verbatim>\<open>$\<close> is written as alternatives of the whole
  pattern, in the same order; the optional group of \<^verbatim>\<open>_LINKEDIN_SUFFIX_RE\<close> adds the
  alternative without a word as the last one. The locations are in the order of
  \<^verbatim>\<open>_LOCATION_PATTERN\<close>, longest first.
\<close>

definition leading_junk :: "char \<Rightarrow> bool" where
  "leading_junk d =
     (isspace d \<or> d \<in> {CHR 0xB7, CHR ''-'', CHR '','', CHR ''.'', CHR 0x27,
      CHR 0x22, CHR ''['', CHR '']'', CHR ''('', CHR '')'', CHR ''{'', CHR ''}'', CHR ''*'',
      CHR ''/'', CHR 0x5C, CHR ''#'', CHR 0x60, CHR ''='', CHR '':'', CHR '';'', CHR ''!'',
      CHR ''?'', CHR ''|'', CHR ''@'', CHR ''&'', CHR ''+''})"

definition trailing_junk :: "char \<Rightarrow> bool" where
  "trailing_junk d =
     (isspace d \<or> d \<in> {CHR '','', CHR ''.'', CHR ''-'', CHR 0x27, CHR 0x22,
      CHR ''['', CHR '']'', CHR ''('', CHR '')'', CHR ''{'', CHR ''}'', CHR ''*'',
      CHR ''/'', CHR 0x5C, CHR ''#'', CHR 0x60, CHR ''='', CHR '':'', CHR '';'', CHR ''!'',
      CHR ''?'', CHR ''|'', CHR ''@'', CHR ''&'', CHR ''+'', CHR 0xB7})"

definition LEADING_JUNK_RE :: pattern where
  "LEADING_JUNK_RE = [[Bol, Rep 1 None leading_junk]]"

definition TRAILING_JUNK_RE :: pattern where
  "TRAILING_JUNK_RE = [[Rep 1 None trailing_junk, Eol]]"

definition LINKEDIN_WORDS :: "string list" where
  "LINKEDIN_WORDS =
     [''full-time'', ''part-time'', ''contract'', ''internship'', ''seasonal'',
      ''temporary'', ''freelance'', ''self-employed'', ''apprenticeship'']"

definition LINKEDIN_SUFFIX_RE :: pattern where
  "LINKEDIN_SUFFIX_RE =
     map (\<lambda>w. [Rep 0 None isspace, One (\<lambda>d. d = CHR 0xB7), Rep 0 None isspace] @ ilit w
                @ [Rep 0 None isspace, Eol]) LINKEDIN_WORDS
     @ [[Rep 0 None isspace, One (\<lambda>d. d = CHR 0xB7), Rep 0 None isspace, Rep 0 None isspace, Eol]]"

definition PAREN_RE :: pattern where
  "PAREN_RE =
     [[Rep 0 None isspace, One (\<lambda>d. d = CHR ''(''), Rep 0 None (\<lambda>d. d \<noteq> CHR '')''),
       Rep 0 (Some 1) (\<lambda>d. d = CHR '')''), Rep 0 None isspace]]"

definition LOCATIONS :: "string list" where
  "LOCATIONS =
     [''thiruvananthapuram'', ''corporate office'', ''visakhapatnam'', ''bhubaneswar'',
      ''navi mumbai'', ''head office'', ''chandigarh'', ''coimbatore'', ''aurangabad'',
      ''singapore'', ''australia'', ''new delhi'', ''delhi/ncr'', ''bangalore'',
      ''bengaluru'', ''hyderabad'', ''ahmedabad'', ''ghaziabad'', ''jalandhar'',
      ''faridabad'', ''mangalore'', ''corporate'', ''gurugram'', ''vadodara'', ''jamnagar'',
      ''guwahati'', ''dehradun'', ''amritsar'', ''ludhiana'', ''siliguri'', ''varanasi'',
      ''jabalpur'', ''germany'', ''chennai'', ''kolkata'', ''gurgaon'', ''lucknow'',
      ''jodhpur'', ''udaipur'', ''gwalior'', ''london'', ''canada'', ''africa'', ''europe'',
      ''mumbai'', ''jaipur'', ''indore'', ''bhopal'', ''nagpur'', ''cochin'', ''mysore'',
      ''mysuru'', ''rajkot'', ''ranchi'', ''shimla'', ''kanpur'', ''meerut'', ''nashik'',
      ''india'', ''dubai'', ''japan'', ''china'', ''delhi'', ''noida'', ''surat'',
      ''kochi'', ''patna'', ''thane'', ''asia'', ''pune'', ''agra'', ''usa'', ''uae'',
      ''ncr'', ''uk'', ''hq'']"

definition TRAILING_LOCATION_RE :: pattern where
  "TRAILING_LOCATION_RE =
     map (\<lambda>loc. [Rep 1 None (\<lambda>d. d = CHR '','' \<or> isspace d)] @ ilit loc
                  @ [Rep 0 None isspace, Eol]) LOCATIONS"

text \<open>
  \<^verbatim>\<open>(\w)\s+&(\w)\<close> is replaced by \<^verbatim>\<open>\1&\2\<close>, the match without its whitespace.
\<close>

definition SPACE_BEFORE_AMP :: pattern where
  "SPACE_BEFORE_AMP = [[One isword, Rep 1 None isspace, One (\<lambda>d. d = CHR ''&''), One isword]]"

text \<open>The loop that strips trailing locations, at most \<open>n\<close> rounds.\<close>

fun strip_locations :: "nat \<Rightarrow> string \<Rightarrow> string" where
  "strip_locations 0 s = s"
| "strip_locations (Suc n) s =
     (let prev = s;
          s = re_sub TRAILING_LOCATION_RE (\<lambda>m. []) s;
          s = re_sub TRAILING_JUNK_RE (\<lambda>m. []) s
      in if s = prev then s else strip_locations n s)"

definition clean_name :: "string \<Rightarrow> string" where
  "clean_name label =
     (if label = [] then []
      else
        let s = strip label;
            s = re_sub LINKEDIN_SUFFIX_RE (\<lambda>m. []) s;
            s = re_sub PAREN_RE (\<lambda>m. '' '') s;
            s = re_sub LEADING_JUNK_RE (\<lambda>m. []) s;
            s = re_sub TRAILING_JUNK_RE (\<lambda>m. []) s;
            s = strip_locations 3 s;
            s = re_sub SPACES (\<lambda>m. '' '') s;
            s = re_sub SPACE_BEFORE_AMP (filter (\<lambda>d. \<not> isspace d)) s
        in strip s)"


section \<open>Union-find\<close>

text \<open>
  The class \<^verbatim>\<open>UnionFind\<close>. Its two dictionaries have the same keys; the state is the list
  of keys in insertion order together with the parent and the rank of every key. \<open>find\<close>
  is recursive along the parent links and compresses the path; where that recursion does
  not end the result is \<open>None\<close>. Every operation returns the new state.
\<close>

record uf =
  keys :: "int list"
  parent :: "int \<Rightarrow> int"
  rank :: "int \<Rightarrow> nat"

definition uf_empty :: uf where
  "uf_empty = \<lparr>keys = [], parent = (\<lambda>x. x), rank = (\<lambda>x. 0)\<rparr>"

text \<open>The first statement of \<^verbatim>\<open>find\<close>: an unknown \<open>x\<close> becomes a key that is its own parent.\<close>

definition touch :: "uf \<Rightarrow> int \<Rightarrow> uf" where
  "touch u x =
     (if x \<notin> set (keys u)
      then u\<lparr>keys := keys u @ [x], parent := (parent u)(x := x), rank := (rank u)(x := 0)\<rparr>
      else u)"

partial_function (option) find :: "uf \<Rightarrow> int \<Rightarrow> (uf \<times> int) option" where
  "find u x =
     (if parent (touch u x) x \<noteq> x then
        Option.bind (find (touch u x) (parent (touch u x) x))
          (\<lambda>(u', r). Some (u'\<lparr>parent := (parent u')(x := r)\<rparr>, r))
      else Some (touch u x, parent (touch u x) x))"

declare find.simps [code]

definition union :: "uf \<Rightarrow> int \<Rightarrow> int \<Rightarrow> uf option" where
  "union u x y =
     Option.bind (find u x) (\<lambda>(u1, rx).
     Option.bind (find u1 y) (\<lambda>(u2, ry).
       if rx = ry then Some u2
       else
         let (rx, ry) = (if rank u2 rx < rank u2 ry then (ry, rx) else (rx, ry));
             u3 = u2\<lparr>parent := (parent u2)(ry := rx)\<rparr>
         in if rank u3 rx = rank u3 ry
            then Some (u3\<lparr>rank := (rank u3)(rx := rank u3 rx + 1)\<rparr>)
            else Some u3))"

text \<open>
  \<^verbatim>\<open>groups\<close> builds a dictionary from each root to the set of its members; the
  dictionary is an association list in insertion order and a set is the list of its
  elements in the order in which they were added.
\<close>

fun add_member :: "'k \<Rightarrow> 'a \<Rightarrow> ('k \<times> 'a list) list \<Rightarrow> ('k \<times> 'a list) list" where
  "add_member r x [] = [(r, [x])]"
| "add_member r x ((k, ms) # g) =
     (if k = r then (k, if x \<in> set ms then ms else ms @ [x]) # g
      else (k, ms) # add_member r x g)"

fun groups_loop :: "int list \<Rightarrow> uf \<Rightarrow> (int \<times> int list) list
    \<Rightarrow> (uf \<times> (int \<times> int list) list) option" where
  "groups_loop [] u g = Some (u, g)"
| "groups_loop (x # xs) u g =
     (case find u x of
        None \<Rightarrow> None
      | Some (u', r) \<Rightarrow> groups_loop xs u' (add_member r x g))"

definition groups :: "uf \<Rightarrow> (uf \<times> (int \<times> int list) list) option" where
  "groups u = groups_loop (keys u) u []"

text \<open>
  The state is well formed when the keys are distinct, every parent is a key and the rank
  grows strictly along every link to a different parent.
\<close>

definition uf_inv :: "uf \<Rightarrow> bool" where
  "uf_inv u =
     (distinct (keys u) \<and>
      (\<forall>x \<in> set (keys u). parent u x \<in> set (keys u)
         \<and> (parent u x \<noteq> x \<longrightarrow> rank u x < rank u (parent u x))))"


section \<open>Primary selection\<close>

text \<open>
  \<^verbatim>\<open>_LEGAL_SIMPLE\<close> is searched for in the label. \<^verbatim>\<open>label == label.upper()\<close> holds when no
  character of the label changes under \<^verbatim>\<open>upper\<close>, and likewise for \<^verbatim>\<open>lower\<close>.
\<close>

definition LEGAL_SIMPLE :: pattern where
  "LEGAL_SIMPLE =
     map (\<lambda>w. [Bnd] @ ilit w @ [Bnd])
       [''inc'', ''ltd'', ''llc'', ''corp'', ''plc'', ''gmbh'', ''pvt'', ''limited'',
        ''corporation'', ''incorporated'']"

fun search_scan :: "pattern \<Rightarrow> char option \<Rightarrow> string \<Rightarrow> bool" where
  "search_scan pat p [] = (match_at pat p [] \<noteq> None)"
| "search_scan pat p (c # cs) = (match_at pat p (c # cs) \<noteq> None \<or> search_scan pat (Some c) cs)"

definition re_search :: "pattern \<Rightarrow> string \<Rightarrow> bool" where
  "re_search pat s = search_scan pat None s"

definition changes_under_upper :: "char \<Rightarrow> bool" where
  "changes_under_upper d =
     (in_range d 97 122 \<or> code d = 181 \<or> in_range d 223 246 \<or> in_range d 248 255)"

definition isupper :: "char \<Rightarrow> bool" where
  "isupper d = (in_range d 65 90 \<or> in_range d 192 214 \<or> in_range d 216 222)"

definition type_bonus :: "string \<Rightarrow> real" where
  "type_bonus source_type =
     (if source_type = ''Company'' then 100
      else if source_type = ''Companny'' then 90
      else if source_type = ''Group'' then 50
      else if source_type = ''Archived'' then 10
      else 0)"

definition is_infix :: "string \<Rightarrow> string \<Rightarrow> bool" where
  "is_infix t s = (\<exists>k \<le> length s. take (length t) (drop k s) = t)"

definition primary_score :: "string \<Rightarrow> string \<Rightarrow> real" where
  "primary_score label source_type =
     (if label = [] \<or> length (strip label) < 2 then - 10
      else
        let score = 0.0 + type_bonus source_type;
            score = (if \<forall>d \<in> set label. \<not> changes_under_upper d then score - 1
                     else if \<forall>d \<in> set label. \<not> isupper d then score - 1
                     else if isupper (hd label) then score + 2
                     else score);
            score = (if re_search LEGAL_SIMPLE label then score + 1 else score);
            length = length (strip label);
            score = (if length \<ge> 5 then score + min (real length / 30.0) 1.0 else score);
            score = (if is_infix ''  '' label \<or> label \<noteq> strip label then score - 1 else score)
        in score)"

section \<open>The run\<close>

text \<open>
  The steps of \<^verbatim>\<open>main\<close> between the rows read from the table \<^verbatim>\<open>masters\<close> and the rows
  written to \<^verbatim>\<open>balanced_result\<close>. A row read is an id, a label and a type, the last two
  possibly \<^verbatim>\<open>NULL\<close>.
\<close>

type_synonym master_row = "int \<times> string option \<times> string option"

record rec =
  r_id :: int
  r_cleaned :: string
  r_original :: string
  r_type :: string
  r_valid :: nat
  r_reason :: "reason option"

definition make_record :: "master_row \<Rightarrow> rec" where
  "make_record r =
     (case r of (rid, label, rtype) \<Rightarrow>
        let original = (case label of None \<Rightarrow> [] | Some l \<Rightarrow> l);
            cleaned = clean_name original;
            reason = classify_garbage cleaned;
            is_valid = (if reason \<noteq> None then 0 else 1)
        in \<lparr>r_id = rid, r_cleaned = cleaned, r_original = original,
            r_type = (case rtype of None \<Rightarrow> ''Unknown'' | Some t \<Rightarrow> if t = [] then ''Unknown'' else t),
            r_valid = is_valid, r_reason = reason\<rparr>)"

text \<open>
  A dictionary over which the program iterates is an association list in insertion order;
  one that it only looks up is a map.
\<close>

fun dict_set :: "'k \<Rightarrow> 'v \<Rightarrow> ('k \<times> 'v) list \<Rightarrow> ('k \<times> 'v) list" where
  "dict_set k v [] = [(k, v)]"
| "dict_set k v ((k', v') # d) = (if k' = k then (k, v) # d else (k', v') # dict_set k v d)"

definition dict_of :: "('k \<times> 'v) list \<Rightarrow> ('k \<times> 'v) list" where
  "dict_of kvs = fold (\<lambda>(k, v) d. dict_set k v d) kvs []"

definition dict_get :: "('k \<times> 'v) list \<Rightarrow> 'k \<Rightarrow> 'v \<Rightarrow> 'v" where
  "dict_get d k dflt = (case map_of d k of None \<Rightarrow> dflt | Some v \<Rightarrow> v)"

definition valid_records :: "rec list \<Rightarrow> (int \<times> string) list" where
  "valid_records all_records =
     map (\<lambda>r. (r_id r, r_cleaned r)) (filter (\<lambda>r. r_valid r = 1 \<and> r_cleaned r \<noteq> []) all_records)"

subsection \<open>Blocking\<close>

definition MAX_BLOCK :: nat where
  "MAX_BLOCK = 350"

definition join :: "string \<Rightarrow> string list \<Rightarrow> string" where
  "join sep ts = (case ts of [] \<Rightarrow> [] | t # rest \<Rightarrow> t @ concat (map (\<lambda>u. sep @ u) rest))"

definition token_signature :: "string \<Rightarrow> string" where
  "token_signature normalized =
     join '' '' (sort (filter (\<lambda>t. t \<notin> STOPWORDS \<and> length t > 1) (split normalized)))"

record blocks =
  block_prefix3 :: "(string \<times> int list) list"
  block_prefix4 :: "(string \<times> int list) list"
  block_token :: "(string \<times> int list) list"
  block_first_word :: "(string \<times> int list) list"
  block_word_prefix :: "(string \<times> int list) list"
  block_compound :: "(string \<times> int list) list"

definition no_blocks :: blocks where
  "no_blocks = \<lparr>block_prefix3 = [], block_prefix4 = [], block_token = [],
     block_first_word = [], block_word_prefix = [], block_compound = []\<rparr>"

definition add_blocks :: "int \<times> string \<Rightarrow> blocks \<Rightarrow> blocks" where
  "add_blocks entry b =
     (case entry of (rid, nrm) \<Rightarrow>
        let b = (if length nrm \<ge> 3
                 then b\<lparr>block_prefix3 := add_member (take 3 nrm) rid (block_prefix3 b)\<rparr> else b);
            b = (if length nrm \<ge> 4
                 then b\<lparr>block_prefix4 := add_member (take 4 nrm) rid (block_prefix4 b)\<rparr> else b);
            tsig = token_signature nrm;
            b = (if tsig \<noteq> [] \<and> length (split tsig) > 1
                 then b\<lparr>block_token := add_member tsig rid (block_token b)\<rparr> else b);
            words = filter (\<lambda>w. w \<notin> STOPWORDS \<and> length w > 2) (split nrm);
            b = (if words \<noteq> []
                 then b\<lparr>block_first_word := add_member (hd words) rid (block_first_word b)\<rparr>
                 else b);
            b = fold (\<lambda>w b. if length w > 4
                              then b\<lparr>block_word_prefix := add_member (take 5 w) rid (block_word_prefix b)\<rparr>
                              else b) words b;
            b = (if length words \<ge> 2
                 then b\<lparr>block_compound :=
                        add_member (words ! 0 @ ''_'' @ take 3 (words ! 1)) rid (block_compound b)\<rparr>
                 else b)
        in b)"

fun all_pairs :: "'a list \<Rightarrow> ('a \<times> 'a) list" where
  "all_pairs [] = []"
| "all_pairs (x # xs) = map (Pair x) xs @ all_pairs xs"

definition block_pairs :: "(string \<times> int list) list \<Rightarrow> (int \<times> int) list" where
  "block_pairs bd =
     concat (map (\<lambda>(key, members).
                    if length members < 2 \<or> length members > MAX_BLOCK then []
                    else all_pairs (sort members)) bd)"

text \<open>
  \<^verbatim>\<open>candidate_pairs\<close> is a set of pairs; \<open>po\<close> is the order in which Python iterates over it.
\<close>

definition candidate_pairs :: "((int \<times> int) list \<Rightarrow> (int \<times> int) list) \<Rightarrow> (int \<times> string) list
    \<Rightarrow> (int \<times> int) list" where
  "candidate_pairs po id_to_norm =
     (let b = fold add_blocks id_to_norm no_blocks
      in po (remdups (concat (map block_pairs
           [block_prefix3 b, block_prefix4 b, block_token b, block_first_word b,
            block_word_prefix b, block_compound b]))))"

subsection \<open>Scoring and merging\<close>

fun merge_pairs :: "metrics \<Rightarrow> set_order \<Rightarrow> (int \<times> string) list \<Rightarrow> (int \<times> int) list \<Rightarrow> uf
    \<Rightarrow> uf option" where
  "merge_pairs fuzz it id_to_norm [] u = Some u"
| "merge_pairs fuzz it id_to_norm ((id_a, id_b) # ps) u =
     (let na = dict_get id_to_norm id_a [];
          nb = dict_get id_to_norm id_b []
      in if pair_united fuzz it na nb
         then Option.bind (union u id_a id_b) (merge_pairs fuzz it id_to_norm ps)
         else merge_pairs fuzz it id_to_norm ps u)"

subsection \<open>Splitting of oversized groups\<close>

definition MAX_GROUP_SIZE :: nat where
  "MAX_GROUP_SIZE = 50"

definition TIGHT_THRESHOLD :: real where
  "TIGHT_THRESHOLD = 0.90"

text \<open>What the splitting pass decides for a pair of members of an oversized group.\<close>

definition tight_united :: "metrics \<Rightarrow> set_order \<Rightarrow> string \<Rightarrow> string \<Rightarrow> bool" where
  "tight_united fuzz it na nb =
     (if na = [] \<or> nb = [] then False
      else if na = nb then True
      else let sc = composite_score fuzz na nb
           in sc \<ge> TIGHT_THRESHOLD \<and> should_merge it na nb sc)"

fun find_all :: "int list \<Rightarrow> uf \<Rightarrow> uf option" where
  "find_all [] u = Some u"
| "find_all (x # xs) u = Option.bind (find u x) (\<lambda>(u', r). find_all xs u')"

text \<open>
  The double loop over the members of one oversized group, with the group's own
  union-find \<open>sub_uf\<close>; in the rebuilding pass the unions also go to the new main union-find
  \<open>uf2\<close>.
\<close>

fun tight_unions :: "metrics \<Rightarrow> set_order \<Rightarrow> (int \<times> string) list \<Rightarrow> (int \<times> int) list
    \<Rightarrow> uf \<Rightarrow> uf option" where
  "tight_unions fuzz it id_to_norm [] sub_uf = Some sub_uf"
| "tight_unions fuzz it id_to_norm ((id_a, id_b) # ps) sub_uf =
     (if tight_united fuzz it (dict_get id_to_norm id_a []) (dict_get id_to_norm id_b [])
      then Option.bind (union sub_uf id_a id_b) (tight_unions fuzz it id_to_norm ps)
      else tight_unions fuzz it id_to_norm ps sub_uf)"

fun tight_unions2 :: "metrics \<Rightarrow> set_order \<Rightarrow> (int \<times> string) list \<Rightarrow> (int \<times> int) list
    \<Rightarrow> uf \<times> uf \<Rightarrow> (uf \<times> uf) option" where
  "tight_unions2 fuzz it id_to_norm [] (sub_uf, uf2) = Some (sub_uf, uf2)"
| "tight_unions2 fuzz it id_to_norm ((id_a, id_b) # ps) (sub_uf, uf2) =
     (if tight_united fuzz it (dict_get id_to_norm id_a []) (dict_get id_to_norm id_b [])
      then Option.bind (union sub_uf id_a id_b) (\<lambda>sub_uf'.
           Option.bind (union uf2 id_a id_b) (\<lambda>uf2'.
             tight_unions2 fuzz it id_to_norm ps (sub_uf', uf2')))
      else tight_unions2 fuzz it id_to_norm ps (sub_uf, uf2))"

definition sub_groups :: "metrics \<Rightarrow> set_order \<Rightarrow> (int \<times> string) list \<Rightarrow> int list
    \<Rightarrow> (int \<times> int list) list option" where
  "sub_groups fuzz it id_to_norm members =
     (let member_list = sort members
      in Option.bind (find_all member_list uf_empty) (\<lambda>sub_uf.
         Option.bind (tight_unions fuzz it id_to_norm (all_pairs member_list) sub_uf) (\<lambda>sub_uf.
         map_option snd (groups sub_uf))))"

fun count_split :: "metrics \<Rightarrow> set_order \<Rightarrow> (int \<times> string) list \<Rightarrow> (int \<times> int list) list
    \<Rightarrow> nat option" where
  "count_split fuzz it id_to_norm [] = Some 0"
| "count_split fuzz it id_to_norm ((rt, members) # rest) =
     Option.bind (sub_groups fuzz it id_to_norm members) (\<lambda>sg.
     map_option (\<lambda>n. if length sg > 1 then Suc n else n) (count_split fuzz it id_to_norm rest))"

fun remerge_small :: "(int \<times> int list) list \<Rightarrow> (int \<times> int list) list \<Rightarrow> uf \<Rightarrow> uf option" where
  "remerge_small oversized [] uf2 = Some uf2"
| "remerge_small oversized ((rt, members) # rest) uf2 =
     (if rt \<notin> fst ` set oversized then
        (case sort members of
           [] \<Rightarrow> remerge_small oversized rest uf2
         | m0 # ms \<Rightarrow>
             Option.bind (fold (\<lambda>m u. Option.bind u (\<lambda>u. union u m0 m)) ms (Some uf2))
               (remerge_small oversized rest))
      else remerge_small oversized rest uf2)"

fun resplit :: "metrics \<Rightarrow> set_order \<Rightarrow> (int \<times> string) list \<Rightarrow> (int \<times> int list) list \<Rightarrow> uf
    \<Rightarrow> uf option" where
  "resplit fuzz it id_to_norm [] uf2 = Some uf2"
| "resplit fuzz it id_to_norm ((rt, members) # rest) uf2 =
     (let member_list = sort members
      in Option.bind (find_all member_list uf_empty) (\<lambda>sub_uf.
         Option.bind (tight_unions2 fuzz it id_to_norm (all_pairs member_list) (sub_uf, uf2))
           (\<lambda>(sub_uf, uf2). resplit fuzz it id_to_norm rest uf2)))"

definition split_oversized :: "metrics \<Rightarrow> set_order \<Rightarrow> (int \<times> string) list \<Rightarrow> uf \<Rightarrow> uf option" where
  "split_oversized fuzz it id_to_norm u =
     Option.bind (groups u) (\<lambda>(u, raw_groups).
       let oversized = filter (\<lambda>(rt, members). length members > MAX_GROUP_SIZE) raw_groups
       in if oversized \<noteq> [] then
            Option.bind (count_split fuzz it id_to_norm oversized) (\<lambda>split_count.
              if split_count > 0 then
                Option.bind (remerge_small oversized raw_groups uf_empty)
                  (resplit fuzz it id_to_norm oversized)
              else Some u)
          else Some u)"

subsection \<open>Groups, primaries and the rows written\<close>

text \<open>
  \<open>mo\<close> is the order in which Python iterates over a set of member ids. The sort by
  descending score is stable. \<^verbatim>\<open>scored_members[0]\<close> fails on an empty group.
\<close>

definition select_group :: "(int list \<Rightarrow> int list) \<Rightarrow> (int \<times> string) list \<Rightarrow> (int \<rightharpoonup> string)
    \<Rightarrow> int list \<Rightarrow> (int \<rightharpoonup> int) \<times> (int \<rightharpoonup> nat) \<Rightarrow> ((int \<rightharpoonup> int) \<times> (int \<rightharpoonup> nat)) option" where
  "select_group mo id_to_cleaned id_to_type members st =
     (let scored_members =
            map (\<lambda>mid. (mid, dict_get id_to_cleaned mid [],
                         primary_score (dict_get id_to_cleaned mid [])
                           (case id_to_type mid of None \<Rightarrow> ''Company'' | Some t \<Rightarrow> t)))
                (mo members);
          scored_members = sort_key (\<lambda>(mid, c, s). - s) scored_members
      in case scored_members of
           [] \<Rightarrow> None
         | (best_id, c, s) # rest \<Rightarrow>
             Some (fold (\<lambda>(mid, c, s) (id_to_group, id_is_primary).
                           (id_to_group(mid \<mapsto> best_id),
                            id_is_primary(mid \<mapsto> (if mid = best_id then 1 else 0))))
                        scored_members st))"

fun select_primaries :: "(int list \<Rightarrow> int list) \<Rightarrow> (int \<times> string) list \<Rightarrow> (int \<rightharpoonup> string)
    \<Rightarrow> (int \<times> int list) list \<Rightarrow> (int \<rightharpoonup> int) \<times> (int \<rightharpoonup> nat)
    \<Rightarrow> ((int \<rightharpoonup> int) \<times> (int \<rightharpoonup> nat)) option" where
  "select_primaries mo id_to_cleaned id_to_type [] st = Some st"
| "select_primaries mo id_to_cleaned id_to_type ((rt, members) # rest) st =
     Option.bind (select_group mo id_to_cleaned id_to_type members st)
       (select_primaries mo id_to_cleaned id_to_type rest)"

definition singletons :: "int list \<Rightarrow> (int \<rightharpoonup> int) \<times> (int \<rightharpoonup> nat) \<Rightarrow> (int \<rightharpoonup> int) \<times> (int \<rightharpoonup> nat)" where
  "singletons rids st =
     fold (\<lambda>rid (id_to_group, id_is_primary).
             if rid \<notin> dom id_to_group
             then (id_to_group(rid \<mapsto> rid), id_is_primary(rid \<mapsto> 1))
             else (id_to_group, id_is_primary)) rids st"

record row =
  company_name :: string
  original_name :: string
  master_id :: int
  source_type :: string
  group_id :: int
  is_primary :: nat
  row_is_valid :: nat
  filter_reason :: "reason option"

definition make_row :: "(int \<rightharpoonup> int) \<Rightarrow> (int \<rightharpoonup> nat) \<Rightarrow> rec \<Rightarrow> row" where
  "make_row id_to_group id_is_primary r =
     (let gid = (if r_valid r \<noteq> 0
                 then (case id_to_group (r_id r) of None \<Rightarrow> r_id r | Some g \<Rightarrow> g) else r_id r);
          pri = (if r_valid r \<noteq> 0
                 then (case id_is_primary (r_id r) of None \<Rightarrow> 1 | Some p \<Rightarrow> p) else 0)
      in \<lparr>company_name = r_cleaned r, original_name = r_original r, master_id = r_id r,
          source_type = r_type r, group_id = gid, is_primary = pri,
          row_is_valid = r_valid r, filter_reason = r_reason r\<rparr>)"

text \<open>
  The whole run. \<open>None\<close> stands for a run that does not reach the point where it writes
  the rows.
\<close>

definition main :: "metrics \<Rightarrow> set_order \<Rightarrow> ((int \<times> int) list \<Rightarrow> (int \<times> int) list)
    \<Rightarrow> (int list \<Rightarrow> int list) \<Rightarrow> master_row list \<Rightarrow> row list option" where
  "main fuzz it po mo all_rows =
     (let all_records = map make_record all_rows;
          valid = valid_records all_records;
          id_to_cleaned = dict_of valid;
          id_to_norm = dict_of (map (\<lambda>(rid, cleaned). (rid, normalize cleaned)) valid);
          id_to_type = map_of (rev (map (\<lambda>r. (r_id r, r_type r)) all_records))
      in Option.bind (merge_pairs fuzz it id_to_norm (candidate_pairs po id_to_norm) uf_empty)
           (\<lambda>u.
         Option.bind (split_oversized fuzz it id_to_norm u) (\<lambda>u.
         Option.bind (groups u) (\<lambda>(u, groups).
         Option.bind (select_primaries mo id_to_cleaned id_to_type groups (Map.empty, Map.empty))
           (\<lambda>st.
             case singletons (map fst id_to_cleaned) st of
               (id_to_group, id_is_primary) \<Rightarrow>
                 Some (map (make_row id_to_group id_is_primary) all_records))))))"


section \<open>Notions used in the statements\<close>

text \<open>
  The orders in which Python iterates over the set of candidate pairs and over a set of
  member ids are admissible when they visit exactly the elements of the set.
\<close>

definition pairs_order_ok :: "((int \<times> int) list \<Rightarrow> (int \<times> int) list) \<Rightarrow> bool" where
  "pairs_order_ok po = (\<forall>ps. distinct ps \<longrightarrow> set (po ps) = set ps)"

definition members_order_ok :: "(int list \<Rightarrow> int list) \<Rightarrow> bool" where
  "members_order_ok mo = (\<forall>ms. distinct ms \<longrightarrow> set (mo ms) = set ms)"

text \<open>
  A dictionary of groups is a partition of the set \<open>S\<close>: its keys are distinct, no group is
  empty, no id occurs twice, and the ids are those of \<open>S\<close>.
\<close>

definition groups_ok :: "(int \<times> int list) list \<Rightarrow> int set \<Rightarrow> bool" where
  "groups_ok g S =
     (distinct (map fst g) \<and> distinct (concat (map snd g)) \<and> set (concat (map snd g)) = S
      \<and> (\<forall>(r, ms) \<in> set g. ms \<noteq> []))"

text \<open>A well-formed union-find whose keys are among the ids of \<open>S\<close>.\<close>

definition uf_in :: "int set \<Rightarrow> uf \<Rightarrow> bool" where
  "uf_in S u = (uf_inv u \<and> set (keys u) \<subseteq> S)"

text \<open>All ids in the six dictionaries of blocks are in \<open>T\<close>.\<close>

definition blocks_in :: "int set \<Rightarrow> blocks \<Rightarrow> bool" where
  "blocks_in T b =
     ((\<forall>(k, ms) \<in> set (block_prefix3 b). set ms \<subseteq> T)
      \<and> (\<forall>(k, ms) \<in> set (block_prefix4 b). set ms \<subseteq> T)
      \<and> (\<forall>(k, ms) \<in> set (block_token b). set ms \<subseteq> T)
      \<and> (\<forall>(k, ms) \<in> set (block_first_word b). set ms \<subseteq> T)
      \<and> (\<forall>(k, ms) \<in> set (block_word_prefix b). set ms \<subseteq> T)
      \<and> (\<forall>(k, ms) \<in> set (block_compound b). set ms \<subseteq> T))"

text \<open>
  The two dictionaries \<^verbatim>\<open>id_to_group\<close> and \<^verbatim>\<open>id_is_primary\<close> are consistent over the ids
  of \<open>T\<close>: every id of \<open>T\<close> has a group, the group is the id of a member of \<open>T\<close> that is its own
  group, and an id is primary exactly when it is its own group.
\<close>

definition assignment_ok :: "int set \<Rightarrow> (int \<rightharpoonup> int) \<times> (int \<rightharpoonup> nat) \<Rightarrow> bool" where
  "assignment_ok T st =
     (case st of (G, P) \<Rightarrow>
        dom G = T
        \<and> (\<forall>i \<in> T. \<exists>b \<in> T. G i = Some b \<and> G b = Some b \<and> P i = Some (if i = b then 1 else 0)))"


section \<open>Facts about the helper functions\<close>

lemma it_Nil: "order_ok it \<Longrightarrow> it [] = []"
  unfolding order_ok_def by (metis distinct.simps(1) set_empty)

lemma it_single: "order_ok it \<Longrightarrow> it [x] = [x]"
proof -
  assume ok: "order_ok it"
  then have s: "set (it [x]) = {x}" and d: "distinct (it [x])"
    unfolding order_ok_def by simp_all
  from s d show ?thesis
    by (cases "it [x]") (auto simp: insert_eq_iff split: if_splits dest!: subset_singletonD)
qed

lemma order_ok_id: "order_ok (\<lambda>xs. xs)"
  by (simp add: order_ok_def)

lemma lcs_same: "lcs t t = length t"
  by (induction t) simp_all

lemma fuzz_ratio_same: "fuzz_ratio t t = 100"
  by (simp add: fuzz_ratio_def indel_distance_def lcs_same)

lemma fuzz_ratio_nonneg: "0 \<le> fuzz_ratio a b"
proof (cases "length a + length b = 0")
  case True
  then show ?thesis by (simp add: fuzz_ratio_def)
next
  case False
  have "real (indel_distance a b) \<le> real (length a + length b)"
    by (simp add: indel_distance_def)
  moreover from False have "0 < length a + length b"
    by simp
  then have "0 < real (length a + length b)"
    by (simp only: of_nat_0_less_iff)
  ultimately have "real (indel_distance a b) / real (length a + length b) \<le> 1"
    by (simp only: divide_le_eq_1_pos)
  with False show ?thesis by (simp add: fuzz_ratio_def)
qed

lemma meets: "x \<in> S \<Longrightarrow> x \<in> set xs \<Longrightarrow> set xs \<inter> S \<noteq> {}"
  by auto

lemmas tok_eval = significant_tokens_def STOPWORDS_def isspace_def code_def

text \<open>
  The value of \<^verbatim>\<open>has_business_conflict\<close> in its subset case with a strong differentiator
  among the extra tokens.
\<close>

lemma conflict_subset_strong:
  assumes ok: "order_ok it"
    and A: "A = remdups (significant_tokens norm_a)"
    and B: "B = remdups (significant_tokens norm_b)"
    and shared: "inter A B \<noteq> []"
    and fold: "typo_fold (it (diff A B)) (it (diff B A)) ([], []) = (real_only_a, matched_b)"
    and rb: "real_only_b = diff (diff B A) matched_b"
    and subset: "real_only_a = [] \<or> real_only_b = []"
    and strong: "set (real_only_a @ real_only_b) \<inter> STRONG_DIFFERENTIATORS \<noteq> {}"
  shows "has_business_conflict it norm_a norm_b score = (score < 0.93)"
proof -
  have not_both: "\<not> (real_only_a = [] \<and> real_only_b = [])"
    using strong by auto
  have only: "\<not> (diff A B = [] \<and> diff B A = [])"
  proof
    assume e: "diff A B = [] \<and> diff B A = []"
    with fold it_Nil [OF ok] have "real_only_a = []" by simp
    moreover from e rb have "real_only_b = []" by (simp add: diff_def)
    ultimately show False using not_both by simp
  qed
  have c1: "(inter A B = []) = False"
    using shared by simp
  have c2: "(diff A B = [] \<and> diff B A = []) = False"
    using only by simp
  have c3: "(real_only_a = [] \<and> diff (diff B A) matched_b = []) = False"
    using not_both rb by simp
  have c4: "(real_only_a = [] \<or> diff (diff B A) matched_b = []) = True"
    using subset rb by simp
  have c5: "(set (real_only_a @ diff (diff B A) matched_b) \<inter> STRONG_DIFFERENTIATORS \<noteq> {}) = True"
    using strong rb by simp
  show ?thesis
    unfolding has_business_conflict_def Let_def A [symmetric] B [symmetric]
    by (simp only: c1 c2 fold prod.case c3 c4 c5 if_True if_False)
qed

text \<open>The value of \<^verbatim>\<open>has_business_conflict\<close> once the typo matching is known.\<close>

lemma conflict_value:
  assumes A: "A = remdups (significant_tokens norm_a)"
    and B: "B = remdups (significant_tokens norm_b)"
    and shared: "inter A B \<noteq> []"
    and only: "diff A B \<noteq> [] \<or> diff B A \<noteq> []"
    and fold: "typo_fold (it (diff A B)) (it (diff B A)) ([], []) = (real_only_a, matched_b)"
    and rb: "real_only_b = diff (diff B A) matched_b"
  shows "has_business_conflict it norm_a norm_b score =
      (if real_only_a = [] \<and> real_only_b = [] then False
       else if real_only_a = [] \<or> real_only_b = [] then
         (if set (real_only_a @ real_only_b) \<inter> STRONG_DIFFERENTIATORS \<noteq> {} then score < 0.93
          else False)
       else if set real_only_a \<inter> BUSINESS_DIFFERENTIATORS \<noteq> {}
              \<or> set real_only_b \<inter> BUSINESS_DIFFERENTIATORS \<noteq> {} then score < 0.95
       else score < 0.90)"
proof -
  have c1: "(inter A B = []) = False"
    using shared by simp
  have c2: "(diff A B = [] \<and> diff B A = []) = False"
    using only by simp
  show ?thesis
    unfolding has_business_conflict_def Let_def A [symmetric] B [symmetric]
    by (simp only: c1 c2 fold prod.case rb if_False)
qed

lemma conflict_names_differ:
  assumes "has_business_conflict it norm_a norm_b score"
  shows "norm_a \<noteq> norm_b"
proof
  assume "norm_a = norm_b"
  then have "\<not> has_business_conflict it norm_a norm_b score"
    by (simp add: has_business_conflict_def Let_def diff_def)
  with assms show False by simp
qed

lemma conflict_blocks:
  assumes "has_business_conflict it norm_a norm_b score"
  shows "\<not> should_merge it norm_a norm_b score"
  using assms conflict_names_differ [OF assms]
  by (simp add: should_merge_def Let_def)

text \<open>The generic-term block is silent when a shared token is not generic.\<close>

lemma generic_silent:
  assumes "t \<in> set tokens_a" "t \<in> set tokens_b" "t \<notin> GENERIC_INDUSTRY_TERMS"
  shows "\<not> generic_term_block it tokens_a tokens_b score"
proof -
  have "t \<in> set (filter (\<lambda>t. t \<notin> GENERIC_INDUSTRY_TERMS) (inter (remdups tokens_a) (remdups tokens_b)))"
    using assms by (simp add: inter_def)
  then have "filter (\<lambda>t. t \<notin> GENERIC_INDUSTRY_TERMS) (inter (remdups tokens_a) (remdups tokens_b)) \<noteq> []"
    by (metis empty_iff empty_set)
  then show ?thesis
    by (simp add: generic_term_block_def Let_def)
qed

lemma generic_block_both_sides:
  assumes A: "A = remdups tokens_a"
    and B: "B = remdups tokens_b"
    and shared: "inter A B \<noteq> []"
    and generic: "set (inter A B) \<subseteq> GENERIC_INDUSTRY_TERMS"
    and fold: "generic_fold (it (diff A B)) (it (diff B A)) ([], []) = (fuzzy_a, matched_b)"
    and ra: "diff (diff A B) fuzzy_a \<noteq> []"
    and rb: "diff (diff B A) matched_b \<noteq> []"
  shows "generic_term_block it tokens_a tokens_b score"
proof -
  have flt: "filter (\<lambda>t. t \<notin> GENERIC_INDUSTRY_TERMS) (inter A B) = []"
    using generic by (auto simp: filter_empty_conv)
  show ?thesis
    unfolding generic_term_block_def Let_def
    using shared flt fold ra rb by (simp add: A [symmetric] B [symmetric])
qed

lemma generic_block_tokens_differ:
  assumes "generic_term_block it tokens_a tokens_b score"
  shows "diff (remdups tokens_a) (remdups tokens_b) \<noteq> []
    \<or> diff (remdups tokens_b) (remdups tokens_a) \<noteq> []"
proof (rule ccontr)
  assume "\<not> ?thesis"
  then have e: "diff (remdups tokens_a) (remdups tokens_b) = []"
    "diff (remdups tokens_b) (remdups tokens_a) = []"
    by simp_all
  have d: "\<And>ys. diff [] ys = []" by (simp add: diff_def)
  from assms show False
    unfolding generic_term_block_def Let_def e d
    by (simp split: if_splits prod.splits)
qed

lemma generic_block_refuses:
  assumes "generic_term_block it (significant_tokens norm_a) (significant_tokens norm_b) score"
  shows "\<not> should_merge it norm_a norm_b score"
proof -
  have "norm_a \<noteq> norm_b"
    using generic_block_tokens_differ [OF assms] by (auto simp: diff_def)
  with assms show ?thesis by (simp add: should_merge_def Let_def)
qed

section \<open>The names of the examples\<close>

lemma sig_alpha: "significant_tokens ''alpha'' = [''alpha'']"
  by (simp add: tok_eval)

lemma sig_alpha_home: "significant_tokens ''alpha home finance'' = [''alpha'', ''home'', ''finance'']"
  by (simp add: tok_eval)

lemma sig_alpha_dbs: "significant_tokens ''alpha dbs finance'' = [''alpha'', ''dbs'', ''finance'']"
  by (simp add: tok_eval)

lemma sig_tata_motors: "significant_tokens ''tata motors'' = [''tata'', ''motors'']"
  by (simp add: tok_eval)

lemma sig_tata_motors_finance:
  "significant_tokens ''tata motors finance'' = [''tata'', ''motors'', ''finance'']"
  by (simp add: tok_eval)

lemma sig_tataa_motor: "significant_tokens ''tataa motor'' = [''tataa'', ''motor'']"
  by (simp add: tok_eval)

lemma sig_alpha_consulting:
  "significant_tokens ''alpha consulting'' = [''alpha'', ''consulting'']"
  by (simp add: tok_eval)

lemma sig_beta_consulting:
  "significant_tokens ''beta consulting'' = [''beta'', ''consulting'']"
  by (simp add: tok_eval)

lemma sig_acme_tools: "significant_tokens ''acme tools'' = [''acme'', ''tools'']"
  by (simp add: tok_eval)

lemma sig_acme_tools_north_west:
  "significant_tokens ''acme tools north west'' = [''acme'', ''tools'', ''north'', ''west'']"
  by (simp add: tok_eval)

lemma finance_strong: "''finance'' \<in> STRONG_DIFFERENTIATORS"
  by (simp add: STRONG_DIFFERENTIATORS_def)

lemma north_west_not_strong:
  "''north'' \<notin> STRONG_DIFFERENTIATORS" "''west'' \<notin> STRONG_DIFFERENTIATORS"
  by (simp_all add: STRONG_DIFFERENTIATORS_def)

lemma names_not_generic:
  "''alpha'' \<notin> GENERIC_INDUSTRY_TERMS" "''tata'' \<notin> GENERIC_INDUSTRY_TERMS"
  "''acme'' \<notin> GENERIC_INDUSTRY_TERMS"
  by (simp_all add: GENERIC_INDUSTRY_TERMS_def)

lemma consulting_generic: "''consulting'' \<in> GENERIC_INDUSTRY_TERMS"
  by (simp add: GENERIC_INDUSTRY_TERMS_def)

lemma ratio_alpha_beta: "\<not> fuzz_ratio ''alpha'' ''beta'' \<ge> 80"
  by (simp add: fuzz_ratio_def indel_distance_def)

lemma ratio_beta_alpha: "\<not> fuzz_ratio ''beta'' ''alpha'' \<ge> 80"
  by (simp add: fuzz_ratio_def indel_distance_def)

lemma ratio_tata_names: "fuzz_ratio ''tata motors'' ''tata motors finance'' = 220 / 3"
  by (simp add: fuzz_ratio_def indel_distance_def)

lemma ratio_tata_names_rev: "fuzz_ratio ''tata motors finance'' ''tata motors'' = 220 / 3"
  by (simp add: fuzz_ratio_def indel_distance_def)

text \<open>With only \<^verbatim>\<open>fuzz.ratio\<close> known, the composite score is at most \<open>0.70 + 0.30 * ratio / 100\<close>.\<close>

lemma composite_score_le:
  assumes "metrics_bounded fuzz"
  shows "composite_score fuzz a b \<le> 0.70 + 0.30 * (fuzz_ratio a b / 100)"
proof (cases "a = [] \<or> b = []")
  case True
  with fuzz_ratio_nonneg [of a b] show ?thesis by (simp add: composite_score_def)
next
  case False
  from assms have "token_sort_ratio fuzz a b \<le> 100" "token_set_ratio fuzz a b \<le> 100"
    "partial_ratio fuzz a b \<le> 100"
    by (simp_all add: metrics_bounded_def)
  with False show ?thesis
    by (simp add: composite_score_def Let_def)
qed

lemma tata_conflict:
  assumes "order_ok it"
  shows "has_business_conflict it ''tata motors'' ''tata motors finance'' score = (score < 0.93)"
proof (rule conflict_subset_strong [OF assms refl refl, where real_only_a = "[]"
      and matched_b = "[]" and real_only_b = "[''finance'']"])
  show "set ([] @ [''finance'']) \<inter> STRONG_DIFFERENTIATORS \<noteq> {}"
    by (rule meets [OF finance_strong]) simp
qed (simp_all add: sig_tata_motors sig_tata_motors_finance inter_def diff_def it_Nil [OF assms])

lemma tata_conflict_rev:
  assumes "order_ok it"
  shows "has_business_conflict it ''tata motors finance'' ''tata motors'' score = (score < 0.93)"
proof (rule conflict_subset_strong [OF assms refl refl, where real_only_a = "[''finance'']"
      and matched_b = "[]" and real_only_b = "[]"])
  show "set ([''finance''] @ []) \<inter> STRONG_DIFFERENTIATORS \<noteq> {}"
    by (rule meets [OF finance_strong]) simp
qed (simp_all add: sig_tata_motors sig_tata_motors_finance inter_def diff_def it_Nil [OF assms]
       it_single [OF assms] first_match_def)

section \<open>Claims about the merge decision\<close>

text \<open>
  C6. Short-name bridge prevention: for two distinct normalised names of which the shorter
  has at most one significant token, \<^verbatim>\<open>should_merge\<close> accepts only if the score is at least
  0.95. In particular the bare name "alpha" is merged with "alpha home finance" or with
  "alpha dbs finance" only at a pairwise score of at least 0.95.
\<close>

theorem short_name_bridge_prevention:
  "(norm_a \<noteq> norm_b \<and>
      min (length (significant_tokens norm_a)) (length (significant_tokens norm_b)) \<le> 1 \<and>
      should_merge it norm_a norm_b score \<longrightarrow> 0.95 \<le> score)
   \<and> (should_merge it ''alpha'' ''alpha home finance'' s1 \<longrightarrow> 0.95 \<le> s1)
   \<and> (should_merge it ''alpha'' ''alpha dbs finance'' s2 \<longrightarrow> 0.95 \<le> s2)"
proof -
  have general: "0.95 \<le> sc"
    if "a \<noteq> b" "min (length (significant_tokens a)) (length (significant_tokens b)) \<le> 1"
      "should_merge it a b sc" for a b sc
    using that by (auto simp: should_merge_def Let_def split: if_splits)
  have "0.95 \<le> s1" if "should_merge it ''alpha'' ''alpha home finance'' s1"
    by (rule general [OF _ _ that]) (simp_all add: sig_alpha sig_alpha_home)
  moreover have "0.95 \<le> s2" if "should_merge it ''alpha'' ''alpha dbs finance'' s2"
    by (rule general [OF _ _ that]) (simp_all add: sig_alpha sig_alpha_dbs)
  ultimately show ?thesis using general by blast
qed

lemma alpha_home_conflict:
  "has_business_conflict (\<lambda>xs. xs) ''alpha'' ''alpha home finance'' score = (score < 0.93)"
proof (rule conflict_subset_strong [OF _ refl refl, where real_only_a = "[]"
      and matched_b = "[]" and real_only_b = "[''home'', ''finance'']"])
  show "order_ok (\<lambda>xs. xs)" by (rule order_ok_id)
  show "set ([] @ [''home'', ''finance'']) \<inter> STRONG_DIFFERENTIATORS \<noteq> {}"
    by (rule meets [OF finance_strong]) simp
qed (simp_all add: sig_alpha sig_alpha_home inter_def diff_def)

lemma alpha_home_merges: "should_merge (\<lambda>xs. xs) ''alpha'' ''alpha home finance'' 0.96"
proof -
  have g: "\<not> generic_term_block (\<lambda>xs. xs) (significant_tokens ''alpha'')
      (significant_tokens ''alpha home finance'') 0.96"
    by (rule generic_silent [where t = "''alpha''"])
      (simp_all add: sig_alpha sig_alpha_home names_not_generic)
  have c: "\<not> has_business_conflict (\<lambda>xs. xs) ''alpha'' ''alpha home finance'' 0.96"
    by (simp add: alpha_home_conflict)
  show ?thesis
    unfolding should_merge_def Let_def using g c
    by (simp add: MERGE_THRESHOLD_def AUTO_MERGE_THRESHOLD_def)
qed

theorem short_name_bridge_prevention_witness:
  "''alpha'' \<noteq> ''alpha home finance'' \<and>
   min (length (significant_tokens ''alpha'')) (length (significant_tokens ''alpha home finance'')) \<le> 1 \<and>
   should_merge (\<lambda>xs. xs) ''alpha'' ''alpha home finance'' 0.96 \<and> (0.95::real) \<le> 0.96"
  using short_name_bridge_prevention [of "''alpha''" "''alpha home finance''" "\<lambda>xs. xs" "0.96"]
    alpha_home_merges
  by (simp add: sig_alpha sig_alpha_home)


text \<open>
  C7, as stated: whenever, after the typo matching of the unique tokens, one name's
  significant tokens are a subset of the other's and the extra tokens include a strong
  differentiator, the merge is blocked at every score below 0.93. The code does not
  block the pair "tataa motor" / "tata motors finance" at score 0.921875: the two names
  share no token exactly, and \<^verbatim>\<open>has_business_conflict\<close> returns \<^verbatim>\<open>False\<close> for such a pair
  before it matches any typo. Here both tokens of the first name are typo variants of
  tokens of the second and the extra token is "finance".
\<close>

theorem strong_differentiator_counterexample:
  "typo_fold (diff (remdups (significant_tokens ''tataa motor''))
                   (remdups (significant_tokens ''tata motors finance'')))
             (diff (remdups (significant_tokens ''tata motors finance''))
                   (remdups (significant_tokens ''tataa motor''))) ([], [])
     = ([], [''tata'', ''motors''])
   \<and> diff (diff (remdups (significant_tokens ''tata motors finance''))
                (remdups (significant_tokens ''tataa motor''))) [''tata'', ''motors'']
     = [''finance'']
   \<and> ''finance'' \<in> STRONG_DIFFERENTIATORS
   \<and> (0.921875::real) < 0.93
   \<and> should_merge (\<lambda>xs. xs) ''tataa motor'' ''tata motors finance'' 0.921875"
proof -
  have r1: "fuzz_ratio ''tataa'' ''tata'' \<ge> 80"
    by (simp add: fuzz_ratio_def indel_distance_def)
  have r2: "\<not> fuzz_ratio ''motor'' ''tata'' \<ge> 80"
    by (simp add: fuzz_ratio_def indel_distance_def)
  have r3: "fuzz_ratio ''motor'' ''motors'' \<ge> 80"
    by (simp add: fuzz_ratio_def indel_distance_def)
  have fold: "typo_fold [''tataa'', ''motor''] [''tata'', ''motors'', ''finance''] ([], [])
      = ([], [''tata'', ''motors''])"
    by (simp add: first_match_def r1 r2 r3)
  have g: "\<not> generic_term_block (\<lambda>xs. xs) (significant_tokens ''tataa motor'')
      (significant_tokens ''tata motors finance'') 0.921875"
    by (simp add: generic_term_block_def sig_tataa_motor sig_tata_motors_finance inter_def)
  have c: "\<not> has_business_conflict (\<lambda>xs. xs) ''tataa motor'' ''tata motors finance'' 0.921875"
    by (simp add: has_business_conflict_def sig_tataa_motor sig_tata_motors_finance inter_def)
  have m: "should_merge (\<lambda>xs. xs) ''tataa motor'' ''tata motors finance'' 0.921875"
    unfolding should_merge_def Let_def using g c
    by (simp add: MERGE_THRESHOLD_def AUTO_MERGE_THRESHOLD_def sig_tataa_motor
        sig_tata_motors_finance)
  show ?thesis
    using fold m by (simp add: sig_tataa_motor sig_tata_motors_finance diff_def finance_strong)
qed

text \<open>
  C7, amended: for two names that share at least one significant token exactly, if after the
  typo matching of the unique tokens one side has no token left, and the tokens left on the
  other side include a strong differentiator, then \<^verbatim>\<open>should_merge\<close> refuses every score
  below 0.93. In particular "tata motors" and "tata motors finance" are refused below 0.93 in
  either order, and the scoring loop never unites them, whatever the library returns for
  the three other metrics: their composite score is at most 0.92.
\<close>

theorem strong_differentiator_blocks_subset:
  "(order_ok it \<and>
    A = remdups (significant_tokens norm_a) \<and>
    B = remdups (significant_tokens norm_b) \<and>
    inter A B \<noteq> [] \<and>
    typo_fold (it (diff A B)) (it (diff B A)) ([], []) = (real_only_a, matched_b) \<and>
    real_only_b = diff (diff B A) matched_b \<and>
    (real_only_a = [] \<or> real_only_b = []) \<and>
    set (real_only_a @ real_only_b) \<inter> STRONG_DIFFERENTIATORS \<noteq> {} \<and>
    score < 0.93
    \<longrightarrow> \<not> should_merge it norm_a norm_b score)
   \<and> (order_ok it \<and> s < 0.93 \<longrightarrow>
        \<not> should_merge it ''tata motors'' ''tata motors finance'' s
        \<and> \<not> should_merge it ''tata motors finance'' ''tata motors'' s)
   \<and> (order_ok it \<and> metrics_bounded fuzz \<longrightarrow>
        \<not> pair_united fuzz it ''tata motors'' ''tata motors finance''
        \<and> \<not> pair_united fuzz it ''tata motors finance'' ''tata motors'')"
proof (intro conjI impI)
  assume h: "order_ok it \<and>
    A = remdups (significant_tokens norm_a) \<and>
    B = remdups (significant_tokens norm_b) \<and>
    inter A B \<noteq> [] \<and>
    typo_fold (it (diff A B)) (it (diff B A)) ([], []) = (real_only_a, matched_b) \<and>
    real_only_b = diff (diff B A) matched_b \<and>
    (real_only_a = [] \<or> real_only_b = []) \<and>
    set (real_only_a @ real_only_b) \<inter> STRONG_DIFFERENTIATORS \<noteq> {} \<and>
    score < 0.93"
  then have "has_business_conflict it norm_a norm_b score = (score < 0.93)"
    by (intro conflict_subset_strong [where A = A and B = B and real_only_a = real_only_a
          and matched_b = matched_b and real_only_b = real_only_b]) blast+
  with h have "has_business_conflict it norm_a norm_b score" by simp
  then show "\<not> should_merge it norm_a norm_b score" by (rule conflict_blocks)
next
  assume h: "order_ok it \<and> s < 0.93"
  then show "\<not> should_merge it ''tata motors'' ''tata motors finance'' s"
    by (intro conflict_blocks) (simp add: tata_conflict)
  from h show "\<not> should_merge it ''tata motors finance'' ''tata motors'' s"
    by (intro conflict_blocks) (simp add: tata_conflict_rev)
next
  assume h: "order_ok it \<and> metrics_bounded fuzz"
  have "composite_score fuzz ''tata motors'' ''tata motors finance'' < 0.93"
    using composite_score_le [of fuzz "''tata motors''" "''tata motors finance''"] h
    by (simp add: ratio_tata_names)
  with h have "\<not> should_merge it ''tata motors'' ''tata motors finance''
      (composite_score fuzz ''tata motors'' ''tata motors finance'')"
    by (intro conflict_blocks) (simp add: tata_conflict)
  then show "\<not> pair_united fuzz it ''tata motors'' ''tata motors finance''"
    by (simp add: pair_united_def)
  have "composite_score fuzz ''tata motors finance'' ''tata motors'' < 0.93"
    using composite_score_le [of fuzz "''tata motors finance''" "''tata motors''"] h
    by (simp add: ratio_tata_names_rev)
  with h have "\<not> should_merge it ''tata motors finance'' ''tata motors''
      (composite_score fuzz ''tata motors finance'' ''tata motors'')"
    by (intro conflict_blocks) (simp add: tata_conflict_rev)
  then show "\<not> pair_united fuzz it ''tata motors finance'' ''tata motors''"
    by (simp add: pair_united_def)
qed

theorem strong_differentiator_blocks_subset_witness:
  "order_ok (\<lambda>xs. xs) \<and>
   inter (remdups (significant_tokens ''tata motors'')) (remdups (significant_tokens ''tata motors finance'')) \<noteq> [] \<and>
   typo_fold (diff (remdups (significant_tokens ''tata motors'')) (remdups (significant_tokens ''tata motors finance'')))
      (diff (remdups (significant_tokens ''tata motors finance'')) (remdups (significant_tokens ''tata motors''))) ([], [])
     = ([], []) \<and>
   [''finance''] = diff (diff (remdups (significant_tokens ''tata motors finance'')) (remdups (significant_tokens ''tata motors''))) [] \<and>
   set ([] @ [''finance'']) \<inter> STRONG_DIFFERENTIATORS \<noteq> {} \<and>
   (0.84::real) < 0.93 \<and>
   \<not> should_merge (\<lambda>xs. xs) ''tata motors'' ''tata motors finance'' 0.84"
proof -
  have m: "set ([] @ [''finance'']) \<inter> STRONG_DIFFERENTIATORS \<noteq> {}"
    by (rule meets [OF finance_strong]) simp
  show ?thesis
    using strong_differentiator_blocks_subset [of "\<lambda>xs. xs"
        "remdups (significant_tokens ''tata motors'')" "''tata motors''"
        "remdups (significant_tokens ''tata motors finance'')" "''tata motors finance''"
        "[]" "[]" "[''finance'']" "0.84" "0.84"] m order_ok_id
    by (simp add: sig_tata_motors sig_tata_motors_finance inter_def diff_def)
qed


text \<open>
  C8. Generic industry-term protection: when two names share significant tokens, all of the
  shared tokens are generic industry terms, and after the typo matching each side still
  has a token that the other lacks, \<^verbatim>\<open>should_merge\<close> refuses the pair at every score. In
  particular "alpha consulting" and "beta consulting" are refused at every score, in either
  order, and the scoring loop never unites them.
\<close>

theorem generic_term_protection:
  "(A = remdups (significant_tokens norm_a) \<and>
    B = remdups (significant_tokens norm_b) \<and>
    inter A B \<noteq> [] \<and>
    set (inter A B) \<subseteq> GENERIC_INDUSTRY_TERMS \<and>
    generic_fold (it (diff A B)) (it (diff B A)) ([], []) = (fuzzy_a, matched_b) \<and>
    diff (diff A B) fuzzy_a \<noteq> [] \<and>
    diff (diff B A) matched_b \<noteq> []
    \<longrightarrow> \<not> should_merge it norm_a norm_b score)
   \<and> (order_ok it \<longrightarrow>
        \<not> should_merge it ''alpha consulting'' ''beta consulting'' s
        \<and> \<not> should_merge it ''beta consulting'' ''alpha consulting'' s
        \<and> \<not> pair_united fuzz it ''alpha consulting'' ''beta consulting''
        \<and> \<not> pair_united fuzz it ''beta consulting'' ''alpha consulting'')"
proof (intro conjI impI)
  assume h: "A = remdups (significant_tokens norm_a) \<and>
    B = remdups (significant_tokens norm_b) \<and>
    inter A B \<noteq> [] \<and>
    set (inter A B) \<subseteq> GENERIC_INDUSTRY_TERMS \<and>
    generic_fold (it (diff A B)) (it (diff B A)) ([], []) = (fuzzy_a, matched_b) \<and>
    diff (diff A B) fuzzy_a \<noteq> [] \<and>
    diff (diff B A) matched_b \<noteq> []"
  then have "generic_term_block it (significant_tokens norm_a) (significant_tokens norm_b) score"
    by (intro generic_block_both_sides [where A = A and B = B and fuzzy_a = fuzzy_a
          and matched_b = matched_b]) blast+
  then show "\<not> should_merge it norm_a norm_b score"
    by (rule generic_block_refuses)
next
  assume ok: "order_ok it"
  have ab: "generic_term_block it (significant_tokens ''alpha consulting'')
      (significant_tokens ''beta consulting'') sc" for sc
    by (rule generic_block_both_sides [OF refl refl, where fuzzy_a = "[]" and matched_b = "[]"])
      (simp_all add: sig_alpha_consulting sig_beta_consulting inter_def diff_def
        consulting_generic it_single [OF ok] first_match_def ratio_alpha_beta)
  have ba: "generic_term_block it (significant_tokens ''beta consulting'')
      (significant_tokens ''alpha consulting'') sc" for sc
    by (rule generic_block_both_sides [OF refl refl, where fuzzy_a = "[]" and matched_b = "[]"])
      (simp_all add: sig_alpha_consulting sig_beta_consulting inter_def diff_def
        consulting_generic it_single [OF ok] first_match_def ratio_beta_alpha)
  show "\<not> should_merge it ''alpha consulting'' ''beta consulting'' s"
    by (rule generic_block_refuses [OF ab])
  show "\<not> should_merge it ''beta consulting'' ''alpha consulting'' s"
    by (rule generic_block_refuses [OF ba])
  show "\<not> pair_united fuzz it ''alpha consulting'' ''beta consulting''"
    using generic_block_refuses [OF ab] by (simp add: pair_united_def)
  show "\<not> pair_united fuzz it ''beta consulting'' ''alpha consulting''"
    using generic_block_refuses [OF ba] by (simp add: pair_united_def)
qed

theorem generic_term_protection_witness:
  "inter (remdups (significant_tokens ''alpha consulting''))
         (remdups (significant_tokens ''beta consulting'')) = [''consulting'']
   \<and> set [''consulting''] \<subseteq> GENERIC_INDUSTRY_TERMS
   \<and> generic_fold (diff (remdups (significant_tokens ''alpha consulting''))
                         (remdups (significant_tokens ''beta consulting'')))
                   (diff (remdups (significant_tokens ''beta consulting''))
                         (remdups (significant_tokens ''alpha consulting''))) ([], [])
       = ([], [])
   \<and> diff (diff (remdups (significant_tokens ''alpha consulting''))
                (remdups (significant_tokens ''beta consulting''))) [] = [''alpha'']
   \<and> diff (diff (remdups (significant_tokens ''beta consulting''))
                (remdups (significant_tokens ''alpha consulting''))) [] = [''beta'']
   \<and> order_ok (\<lambda>xs. xs)
   \<and> \<not> should_merge (\<lambda>xs. xs) ''alpha consulting'' ''beta consulting'' 0.99"
  using generic_term_protection [of
      "remdups (significant_tokens ''alpha consulting'')" "''alpha consulting''"
      "remdups (significant_tokens ''beta consulting'')" "''beta consulting''"
      "\<lambda>xs. xs" "[]" "[]" "0.99" "0.99"] order_ok_id
  by (simp add: sig_alpha_consulting sig_beta_consulting inter_def diff_def
      consulting_generic first_match_def ratio_alpha_beta)


subsection \<open>The example pair of the medium-confidence rule\<close>


lemma acme_no_conflict:
  "\<not> has_business_conflict (\<lambda>xs. xs) ''acme tools'' ''acme tools north west'' score"
proof -
  have p1: "[''acme'', ''tools''] = remdups (significant_tokens ''acme tools'')"
    by (simp add: sig_acme_tools)
  have p2: "[''acme'', ''tools'', ''north'', ''west'']
      = remdups (significant_tokens ''acme tools north west'')"
    by (simp add: sig_acme_tools_north_west)
  have p3: "inter [''acme'', ''tools''] [''acme'', ''tools'', ''north'', ''west''] \<noteq> []"
    by (simp add: inter_def)
  have p4: "diff [''acme'', ''tools''] [''acme'', ''tools'', ''north'', ''west''] \<noteq> [] \<or>
    diff [''acme'', ''tools'', ''north'', ''west''] [''acme'', ''tools''] \<noteq> []"
    by (simp add: diff_def)
  have p5: "typo_fold ((\<lambda>xs. xs) (diff [''acme'', ''tools''] [''acme'', ''tools'', ''north'', ''west'']))
     ((\<lambda>xs. xs) (diff [''acme'', ''tools'', ''north'', ''west''] [''acme'', ''tools''])) ([], []) = ([], [])"
    by (simp add: diff_def)
  have p6: "[''north'', ''west'']
      = diff (diff [''acme'', ''tools'', ''north'', ''west''] [''acme'', ''tools'']) []"
    by (simp add: diff_def)
  have x: "set ([] @ [''north'', ''west'']) \<inter> STRONG_DIFFERENTIATORS = {}"
    using north_west_not_strong by simp
  note v = conflict_value [OF p1 p2 p3 p4 p5 p6, of score]
  show ?thesis
    unfolding v using x by simp
qed


lemma acme_sets_differ:
  "set [''acme'', ''tools''] \<noteq> set [''acme'', ''tools'', ''north'', ''west'']"
proof
  assume "set [''acme'', ''tools''] = set [''acme'', ''tools'', ''north'', ''west'']"
  moreover have "''north'' \<in> set [''acme'', ''tools'', ''north'', ''west'']" by simp
  ultimately have "''north'' \<in> set [''acme'', ''tools'']" by (simp only:)
  then show False by simp
qed

lemma acme_generic_silent:
  "\<not> generic_term_block (\<lambda>xs. xs) (significant_tokens ''acme tools'')
      (significant_tokens ''acme tools north west'') score"
  by (rule generic_silent [where t = "''acme''"])
    (simp_all add: sig_acme_tools sig_acme_tools_north_west names_not_generic)

lemma acme_guard_silent:
  "\<not> (min (length (significant_tokens ''acme tools''))
          (length (significant_tokens ''acme tools north west'')) \<le> 1 \<and> (0.875::real) < 0.95)"
  by (simp add: sig_acme_tools sig_acme_tools_north_west)

lemma acme_band: "MERGE_THRESHOLD \<le> 0.875 \<and> 0.875 < AUTO_MERGE_THRESHOLD"
  by (simp add: MERGE_THRESHOLD_def AUTO_MERGE_THRESHOLD_def)


text \<open>
  C9, as stated: in the band between the two thresholds, with no conflict check firing,
  \<^verbatim>\<open>should_merge\<close> accepts exactly when the token sets are equal or at least 65% of the
  smaller set's members have a close counterpart in the other set. For "acme tools" and
  "acme tools north west" at score 0.875 no check fires and both tokens of the smaller set
  occur in the other, yet the code refuses: it counts the matched tokens of the first
  name and divides by the size of the larger set, here 2 / 4.
\<close>

theorem medium_band_counterexample:
  "MERGE_THRESHOLD \<le> 0.875 \<and> 0.875 < AUTO_MERGE_THRESHOLD
   \<and> \<not> (min (length (significant_tokens ''acme tools''))
              (length (significant_tokens ''acme tools north west'')) \<le> 1 \<and> (0.875::real) < 0.95)
   \<and> \<not> generic_term_block (\<lambda>xs. xs) (significant_tokens ''acme tools'')
          (significant_tokens ''acme tools north west'') 0.875
   \<and> \<not> has_business_conflict (\<lambda>xs. xs) ''acme tools'' ''acme tools north west'' 0.875
   \<and> spec_token_overlap (significant_tokens ''acme tools'')
        (significant_tokens ''acme tools north west'')
   \<and> \<not> should_merge (\<lambda>xs. xs) ''acme tools'' ''acme tools north west'' 0.875"
proof -
  have g: "\<not> generic_term_block (\<lambda>xs. xs) (significant_tokens ''acme tools'')
      (significant_tokens ''acme tools north west'') 0.875"
    by (rule acme_generic_silent)
  have c: "\<not> has_business_conflict (\<lambda>xs. xs) ''acme tools'' ''acme tools north west'' 0.875"
    by (rule acme_no_conflict)
  have r: "fuzz_ratio ''acme'' ''acme'' \<ge> 80" "fuzz_ratio ''tools'' ''tools'' \<ge> 80"
    by (simp_all add: fuzz_ratio_same)
  have s: "spec_token_overlap (significant_tokens ''acme tools'')
      (significant_tokens ''acme tools north west'')"
    unfolding spec_token_overlap_def Let_def sig_acme_tools sig_acme_tools_north_west
    using r by simp
  have t: "\<not> token_overlap (significant_tokens ''acme tools'')
      (significant_tokens ''acme tools north west'')"
    unfolding token_overlap_def Let_def sig_acme_tools sig_acme_tools_north_west
    using acme_sets_differ r by simp
  have m: "\<not> should_merge (\<lambda>xs. xs) ''acme tools'' ''acme tools north west'' 0.875"
    unfolding should_merge_def Let_def using g c t
    by (simp add: MERGE_THRESHOLD_def AUTO_MERGE_THRESHOLD_def)
  have k: "\<not> (min (length (significant_tokens ''acme tools''))
              (length (significant_tokens ''acme tools north west'')) \<le> 1 \<and> (0.875::real) < 0.95)"
    by (rule acme_guard_silent)
  have b: "MERGE_THRESHOLD \<le> 0.875 \<and> 0.875 < AUTO_MERGE_THRESHOLD"
    by (rule acme_band)
  from b k g c s m show ?thesis by blast
qed


text \<open>
  C9, amended: for two distinct names with a score at or above the base merge threshold
  and below the auto-merge threshold, on which neither the short-name guard nor the
  generic-term protection nor the business-conflict check fires, \<^verbatim>\<open>should_merge\<close> accepts
  if and only if the two sets of significant tokens are equal, or the number of tokens of
  the first name that have a counterpart with character ratio at least 80 among the tokens
  of the second name is at least 65% of the size of the larger of the two sets.
\<close>

theorem medium_band_token_overlap:
  "norm_a \<noteq> norm_b \<and>
   MERGE_THRESHOLD \<le> score \<and> score < AUTO_MERGE_THRESHOLD \<and>
   ta = significant_tokens norm_a \<and> tb = significant_tokens norm_b \<and>
   \<not> (min (length ta) (length tb) \<le> 1 \<and> score < 0.95) \<and>
   \<not> generic_term_block it ta tb score \<and>
   \<not> has_business_conflict it norm_a norm_b score
   \<longrightarrow>
   should_merge it norm_a norm_b score =
     (set ta = set tb \<or>
      0.65 * real (max (card (set ta)) (card (set tb)))
        \<le> real (card {t \<in> set ta. \<exists>u \<in> set tb. fuzz_ratio t u \<ge> 80}))"
proof
  assume h: "norm_a \<noteq> norm_b \<and>
   MERGE_THRESHOLD \<le> score \<and> score < AUTO_MERGE_THRESHOLD \<and>
   ta = significant_tokens norm_a \<and> tb = significant_tokens norm_b \<and>
   \<not> (min (length ta) (length tb) \<le> 1 \<and> score < 0.95) \<and>
   \<not> generic_term_block it ta tb score \<and>
   \<not> has_business_conflict it norm_a norm_b score"
  then have ne: "norm_a \<noteq> norm_b" and lo: "\<not> score < MERGE_THRESHOLD"
    and hi: "\<not> score \<ge> AUTO_MERGE_THRESHOLD"
    and ta: "ta = significant_tokens norm_a" and tb: "tb = significant_tokens norm_b"
    and g1: "\<not> (min (length ta) (length tb) \<le> 1 \<and> score < 0.95)"
    and g2: "\<not> generic_term_block it ta tb score"
    and g3: "\<not> has_business_conflict it norm_a norm_b score"
    by (simp_all only: not_less not_le) blast+
  have sm: "should_merge it norm_a norm_b score = token_overlap ta tb"
    unfolding should_merge_def Let_def ta [symmetric] tb [symmetric]
    by (simp only: ne lo hi g1 g2 g3 if_False)
  have len: "length (remdups xs) = card (set xs)" for xs :: "string list"
    by (rule length_remdups_card_conv)
  have cnt: "length (filter P (remdups xs)) = card {t \<in> set xs. P t}" for P and xs :: "string list"
  proof -
    have "length (filter P (remdups xs)) = card ({x. P x} \<inter> set (remdups xs))"
      by (rule distinct_length_filter) simp
    also have "{x. P x} \<inter> set (remdups xs) = {t \<in> set xs. P t}" by auto
    finally show ?thesis .
  qed
  show "should_merge it norm_a norm_b score =
     (set ta = set tb \<or>
      0.65 * real (max (card (set ta)) (card (set tb)))
        \<le> real (card {t \<in> set ta. \<exists>u \<in> set tb. fuzz_ratio t u \<ge> 80}))"
  proof (cases "set ta = set tb")
    case True
    then show ?thesis by (simp add: sm token_overlap_def)
  next
    case False
    then have "set ta \<noteq> {} \<or> set tb \<noteq> {}" by auto
    then have pos: "0 < max (card (set ta)) (card (set tb))"
      by (auto simp: card_gt_0_iff less_max_iff_disj)
    then have pos': "0 < real (max (card (set ta)) (card (set tb)))"
      by (simp only: of_nat_0_less_iff)
    have "token_overlap ta tb =
        (real (card {t \<in> set ta. \<exists>u \<in> set tb. fuzz_ratio t u \<ge> 80})
           / real (max (card (set ta)) (card (set tb))) \<ge> 0.65)"
      unfolding token_overlap_def Let_def len cnt set_remdups using False pos by simp
    also have "\<dots> = (0.65 * real (max (card (set ta)) (card (set tb)))
        \<le> real (card {t \<in> set ta. \<exists>u \<in> set tb. fuzz_ratio t u \<ge> 80}))"
      using pos' by (simp only: pos_le_divide_eq)
    finally show ?thesis using False by (simp add: sm)
  qed
qed


theorem medium_band_token_overlap_witness:
  "''acme tools'' \<noteq> ''acme tools north west'' \<and>
   MERGE_THRESHOLD \<le> 0.875 \<and> 0.875 < AUTO_MERGE_THRESHOLD \<and>
   \<not> (min (length (significant_tokens ''acme tools''))
          (length (significant_tokens ''acme tools north west'')) \<le> 1 \<and> (0.875::real) < 0.95) \<and>
   \<not> generic_term_block (\<lambda>xs. xs) (significant_tokens ''acme tools'')
       (significant_tokens ''acme tools north west'') 0.875 \<and>
   \<not> has_business_conflict (\<lambda>xs. xs) ''acme tools'' ''acme tools north west'' 0.875 \<and>
   should_merge (\<lambda>xs. xs) ''acme tools'' ''acme tools north west'' 0.875 =
     (set (significant_tokens ''acme tools'') = set (significant_tokens ''acme tools north west'') \<or>
      0.65 * real (max (card (set (significant_tokens ''acme tools'')))
                       (card (set (significant_tokens ''acme tools north west''))))
        \<le> real (card {t \<in> set (significant_tokens ''acme tools'').
                      \<exists>u \<in> set (significant_tokens ''acme tools north west''). fuzz_ratio t u \<ge> 80}))"
proof -
  have ne: "''acme tools'' \<noteq> ''acme tools north west''" by simp
  show ?thesis
    using medium_band_token_overlap [of "''acme tools''" "''acme tools north west''" "0.875"
        "significant_tokens ''acme tools''" "significant_tokens ''acme tools north west''"
        "\<lambda>xs. xs"]
      ne acme_band acme_guard_silent acme_generic_silent [of "0.875"]
      acme_no_conflict [of "0.875"]
    by blast
qed






section \<open>The matcher computes the language\<close>

lemma nullable_iff: "nullable r \<longleftrightarrow> [] \<in> lang r"
  by (induction r) (auto intro: star.intros)

lemma lang_mk_alt: "lang (mk_alt r s) = lang r \<union> lang s"
  by (induction r s rule: mk_alt.induct) auto

lemma lang_mk_seq: "lang (mk_seq r s) = lang (Seq r s)"
  by (induction r s rule: mk_seq.induct) auto

lemma conc_cons:
  "c # w \<in> {u @ v | u v. u \<in> A \<and> v \<in> B} \<longleftrightarrow>
     (\<exists>u v. w = u @ v \<and> c # u \<in> A \<and> v \<in> B) \<or> ([] \<in> A \<and> c # w \<in> B)"
proof
  assume "c # w \<in> {u @ v | u v. u \<in> A \<and> v \<in> B}"
  then obtain u v where uv: "c # w = u @ v" "u \<in> A" "v \<in> B" by blast
  show "(\<exists>u v. w = u @ v \<and> c # u \<in> A \<and> v \<in> B) \<or> ([] \<in> A \<and> c # w \<in> B)"
  proof (cases u)
    case Nil
    with uv show ?thesis by simp
  next
    case (Cons d u')
    with uv have "w = u' @ v" "c # u' \<in> A" by simp_all
    with uv show ?thesis by blast
  qed
next
  assume "(\<exists>u v. w = u @ v \<and> c # u \<in> A \<and> v \<in> B) \<or> ([] \<in> A \<and> c # w \<in> B)"
  then show "c # w \<in> {u @ v | u v. u \<in> A \<and> v \<in> B}"
  proof
    assume "\<exists>u v. w = u @ v \<and> c # u \<in> A \<and> v \<in> B"
    then obtain u v where "w = u @ v" "c # u \<in> A" "v \<in> B" by blast
    then have "c # w = (c # u) @ v \<and> c # u \<in> A \<and> v \<in> B" by simp
    then show ?thesis by blast
  next
    assume "[] \<in> A \<and> c # w \<in> B"
    then have "c # w = [] @ (c # w) \<and> [] \<in> A \<and> c # w \<in> B" by simp
    then show ?thesis by blast
  qed
qed

lemma star_cons:
  "c # w \<in> star A \<longleftrightarrow> (\<exists>u v. w = u @ v \<and> c # u \<in> A \<and> v \<in> star A)"
proof
  assume "c # w \<in> star A"
  then show "\<exists>u v. w = u @ v \<and> c # u \<in> A \<and> v \<in> star A"
  proof (induction "c # w" arbitrary: w rule: star.induct)
    case (star_step u v)
    show ?case
    proof (cases u)
      case Nil
      with star_step show ?thesis by simp
    next
      case (Cons d u')
      with star_step.hyps show ?thesis by auto
    qed
  qed
next
  assume "\<exists>u v. w = u @ v \<and> c # u \<in> A \<and> v \<in> star A"
  then obtain u v where "w = u @ v" "c # u \<in> A" "v \<in> star A" by blast
  then show "c # w \<in> star A"
    using star.star_step [of "c # u" A v] by simp
qed

lemma lang_deriv: "lang (deriv c r) = {w. c # w \<in> lang r}"
proof (induction r)
  case (Seq r s)
  have "lang (deriv c (Seq r s)) =
      {u @ v | u v. u \<in> lang (deriv c r) \<and> v \<in> lang s} \<union> (if nullable r then lang (deriv c s) else {})"
    by (simp add: lang_mk_alt lang_mk_seq)
  also have "\<dots> = {w. (\<exists>u v. w = u @ v \<and> c # u \<in> lang r \<and> v \<in> lang s)
      \<or> ([] \<in> lang r \<and> c # w \<in> lang s)}"
    unfolding Seq.IH nullable_iff by auto
  also have "\<dots> = {w. c # w \<in> lang (Seq r s)}"
    unfolding lang.simps conc_cons ..
  finally show ?case .
next
  case (Star r)
  have "lang (deriv c (Star r)) = {u @ v | u v. u \<in> lang (deriv c r) \<and> v \<in> star (lang r)}"
    by (simp add: lang_mk_seq)
  also have "\<dots> = {w. \<exists>u v. w = u @ v \<and> c # u \<in> lang r \<and> v \<in> star (lang r)}"
    unfolding Star.IH by auto
  also have "\<dots> = {w. c # w \<in> lang (Star r)}"
    unfolding lang.simps star_cons ..
  finally show ?case .
qed (auto simp: lang_mk_alt)

lemma matches_iff: "matches r w \<longleftrightarrow> w \<in> lang r"
  by (induction w arbitrary: r) (simp_all add: nullable_iff lang_deriv)


section \<open>Facts about garbage detection\<close>

lemma star_class: "w \<in> star (lang (Cls P)) \<longleftrightarrow> (\<forall>c \<in> set w. P c)"
proof
  assume "w \<in> star (lang (Cls P))"
  then show "\<forall>c \<in> set w. P c"
    by (induction rule: star.induct) auto
next
  assume "\<forall>c \<in> set w. P c"
  then show "w \<in> star (lang (Cls P))"
  proof (induction w)
    case Nil
    show ?case by (rule star.star_empty)
  next
    case (Cons c w)
    then have "[c] \<in> lang (Cls P)" "w \<in> star (lang (Cls P))" by simp_all
    then have "[c] @ w \<in> star (lang (Cls P))" by (rule star.star_step)
    then show ?case by simp
  qed
qed

lemma many1_class: "w \<in> lang (many1 (Cls P)) \<longleftrightarrow> w \<noteq> [] \<and> (\<forall>c \<in> set w. P c)"
proof (cases w)
  case Nil
  then show ?thesis by (simp add: many1_def)
next
  case (Cons c cs)
  have "c # cs \<in> lang (many1 (Cls P)) \<longleftrightarrow> P c \<and> cs \<in> star (lang (Cls P))"
  proof
    assume "c # cs \<in> lang (many1 (Cls P))"
    then show "P c \<and> cs \<in> star (lang (Cls P))"
      by (auto simp: many1_def Cons_eq_append_conv)
  next
    assume "P c \<and> cs \<in> star (lang (Cls P))"
    then have "c # cs = [c] @ cs \<and> [c] \<in> lang (Cls P) \<and> cs \<in> lang (Star (Cls P))"
      by simp
    then show "c # cs \<in> lang (many1 (Cls P))"
      unfolding many1_def lang.simps(4) by blast
  qed
  with Cons star_class [of cs P] show ?thesis by simp
qed

lemma lang_eol: "lang eol = {[], [CHR 0x0A]}"
  by (auto simp: eol_def optional_def)

lemma lang_seqs2: "lang (seqs [r, s]) = {u @ v | u v. u \<in> lang r \<and> v \<in> lang s}"
  by (simp add: seqs_def)

lemma numeric_only_digits:
  assumes "s \<noteq> []" "\<forall>c \<in> set s. isdigit c"
  shows "matches NUMERIC_ONLY_RE s"
proof -
  have "s \<in> lang (many1 (Cls (\<lambda>d. in_range d 48 57)))"
    using assms by (simp add: many1_class isdigit_def)
  moreover have "[] \<in> lang eol" by (simp add: lang_eol)
  ultimately have "s @ [] \<in> lang NUMERIC_ONLY_RE"
    unfolding NUMERIC_ONLY_RE_def lang_seqs2 by blast
  then show ?thesis by (simp add: matches_iff)
qed

lemma special_only_first:
  assumes "matches SPECIAL_ONLY_RE s"
  shows "s \<noteq> [] \<and> \<not> isdigit (hd s)"
proof -
  from assms obtain u v where s: "s = u @ v"
    and u: "u \<in> lang (many1 (Cls (\<lambda>d. \<not> (in_range d 97 122 \<or> in_range d 65 90
        \<or> in_range d 48 57 \<or> in_range d 192 255))))"
    unfolding matches_iff SPECIAL_ONLY_RE_def lang_seqs2 by blast
  from u have "u \<noteq> []" and "\<forall>c \<in> set u. \<not> in_range c 48 57"
    by (simp_all add: many1_class)
  then have "u \<noteq> [] \<and> \<not> isdigit (hd u)"
    by (cases u) (simp_all add: isdigit_def)
  with s show ?thesis by (cases u) simp_all
qed

lemmas rx_eval = seqs_def alts_def cilit_def lit_def optional_def many1_def eol_def
  to_lower_def in_range_def code_def isspace_def isdigit_def isword_def

lemma placeholder_test: "classify_garbage ''test'' = Some Placeholder"
proof -
  have "\<not> matches SPECIAL_ONLY_RE ''test''" by (simp add: SPECIAL_ONLY_RE_def rx_eval)
  moreover have "\<not> matches NUMERIC_ONLY_RE ''test''" by (simp add: NUMERIC_ONLY_RE_def rx_eval)
  moreover have "matches PLACEHOLDER_RE ''test''" by (simp add: PLACEHOLDER_RE_def rx_eval)
  ultimately show ?thesis by (simp add: classify_garbage_def)
qed

lemma placeholder_na: "classify_garbage ''n/a'' = Some Placeholder"
proof -
  have "\<not> matches SPECIAL_ONLY_RE ''n/a''" by (simp add: SPECIAL_ONLY_RE_def rx_eval)
  moreover have "\<not> matches NUMERIC_ONLY_RE ''n/a''" by (simp add: NUMERIC_ONLY_RE_def rx_eval)
  moreover have "matches PLACEHOLDER_RE ''n/a''" by (simp add: PLACEHOLDER_RE_def rx_eval)
  ultimately show ?thesis by (simp add: classify_garbage_def)
qed

lemma placeholder_tbd: "classify_garbage ''tbd'' = Some Placeholder"
proof -
  have "\<not> matches SPECIAL_ONLY_RE ''tbd''" by (simp add: SPECIAL_ONLY_RE_def rx_eval)
  moreover have "\<not> matches NUMERIC_ONLY_RE ''tbd''" by (simp add: NUMERIC_ONLY_RE_def rx_eval)
  moreover have "matches PLACEHOLDER_RE ''tbd''" by (simp add: PLACEHOLDER_RE_def rx_eval)
  ultimately show ?thesis by (simp add: classify_garbage_def)
qed

section \<open>Claims about the normaliser\<close>

text \<open>
  C5, as stated: every string of digits classifies as numeric-only, and every string of at
  most two characters classifies as too short. The two-character string "12" consists of
  digits and classifies as too short, since the length test comes before the numeric test;
  the empty string has at most two characters and classifies as empty.
\<close>

theorem classify_counterexample:
  "classify_garbage ''12'' = Some (Too_short 2) \<and> classify_garbage [] = Some Empty"
  by (simp add: classify_garbage_def)

text \<open>
  C5, amended: \<^verbatim>\<open>classify_garbage\<close> applies its reasons in priority order: the empty string
  is empty; every string of one or two characters is too short, whatever its characters;
  every string of three or more digits is numeric-only; and "test", "n/a" and "tbd" are
  placeholders.
\<close>

theorem classify_priority:
  "classify_garbage [] = Some Empty
   \<and> (s \<noteq> [] \<and> length s \<le> 2 \<longrightarrow> classify_garbage s = Some (Too_short (length s)))
   \<and> (length s \<ge> 3 \<and> (\<forall>c \<in> set s. isdigit c) \<longrightarrow> classify_garbage s = Some Numeric_only)
   \<and> classify_garbage ''test'' = Some Placeholder
   \<and> classify_garbage ''n/a'' = Some Placeholder
   \<and> classify_garbage ''tbd'' = Some Placeholder"
proof (intro conjI impI)
  show "classify_garbage [] = Some Empty"
    by (simp add: classify_garbage_def)
  show "classify_garbage s = Some (Too_short (length s))" if "s \<noteq> [] \<and> length s \<le> 2"
    using that by (simp add: classify_garbage_def)
  show "classify_garbage s = Some Numeric_only" if h: "length s \<ge> 3 \<and> (\<forall>c \<in> set s. isdigit c)"
  proof -
    from h have ne: "s \<noteq> []" by auto
    with h have "isdigit (hd s)" by simp
    with special_only_first [of s] have "\<not> matches SPECIAL_ONLY_RE s" by blast
    moreover from ne h have "matches NUMERIC_ONLY_RE s" by (simp add: numeric_only_digits)
    ultimately show ?thesis using h ne by (simp add: classify_garbage_def)
  qed
qed (rule placeholder_test placeholder_na placeholder_tbd)+

theorem classify_priority_witness:
  "''7'' \<noteq> [] \<and> length ''7'' \<le> 2 \<and> classify_garbage ''7'' = Some (Too_short 1)
   \<and> length ''2024'' \<ge> 3
   \<and> isdigit CHR ''2'' \<and> isdigit CHR ''0'' \<and> isdigit CHR ''4''
   \<and> classify_garbage ''2024'' = Some Numeric_only"
  using classify_priority [of "''7''"] classify_priority [of "''2024''"]
  by (simp add: isdigit_def in_range_def code_def)


section \<open>Normalisation of the example names\<close>

lemmas norm_eval = normalize_def strip_def lower_def re_sub_def match_at_def replace_amp_def
  AMPERSAND_ACRONYM_RE_def NOT_WORD_SPACE_def SPACES_def LEGAL_SUFFIX_RE_def LEADING_THE_def
  TRAILING_THE_def ilit_def dot_def odot_def word_before_def word_after_def ascii_letter_def
  to_lower_def in_range_def code_def isspace_def isword_def Let_def

lemma normalize_the_the_foo: "normalize ''the the foo'' = ''the foo''"
  by (simp add: norm_eval)

lemma normalize_the_foo: "normalize ''the foo'' = ''foo''"
  by (simp add: norm_eval)

text \<open>
  C4, as stated: \<^verbatim>\<open>normalize\<close> is idempotent on every string. It strips one leading article
  only, so the normal form of "the the foo" is "the foo", whose normal form is "foo".
\<close>

theorem normalize_idempotent_counterexample:
  "normalize (normalize ''the the foo'') \<noteq> normalize ''the the foo''"
  by (simp add: normalize_the_the_foo normalize_the_foo)


section \<open>Union-find: the operations end and keep the state well formed\<close>

lemma uf_inv_empty: "uf_inv uf_empty"
  by (simp add: uf_inv_def uf_empty_def)

lemma uf_inv_touch: "uf_inv u \<Longrightarrow> uf_inv (touch u x)"
  by (auto simp: uf_inv_def touch_def)

lemma keys_touch: "set (keys (touch u x)) = insert x (set (keys u))"
  by (auto simp: touch_def)

text \<open>On a key of a well-formed state \<open>find\<close> ends.\<close>

lemma find_key:
  assumes "uf_inv u" "x \<in> set (keys u)"
  shows "\<exists>u' r. find u x = Some (u', r) \<and> uf_inv u' \<and> keys u' = keys u \<and> rank u' = rank u
    \<and> r \<in> set (keys u) \<and> parent u' r = r \<and> rank u x \<le> rank u r
    \<and> (\<forall>z. parent u z = z \<longrightarrow> parent u' z = z)"
  using assms
proof (induction "card {y \<in> set (keys u). rank u x < rank u y}" arbitrary: x u rule: less_induct)
  case less
  have t: "touch u x = u" using less.prems by (simp add: touch_def)
  show ?case
  proof (cases "parent u x = x")
    case True
    then have "find u x = Some (u, x)"
      by (subst find.simps) (simp add: t)
    with less.prems True show ?thesis by simp
  next
    case False
    define p where "p = parent u x"
    from less.prems False have pk: "p \<in> set (keys u)" and rk: "rank u x < rank u p"
      by (auto simp: uf_inv_def p_def)
    have "{y \<in> set (keys u). rank u p < rank u y} \<subset> {y \<in> set (keys u). rank u x < rank u y}"
      using pk rk by auto
    then have "card {y \<in> set (keys u). rank u p < rank u y}
        < card {y \<in> set (keys u). rank u x < rank u y}"
      by (intro psubset_card_mono) simp_all
    from less.hyps [OF this less.prems(1) pk]
    obtain u' r where f: "find u p = Some (u', r)" and i: "uf_inv u'" and k: "keys u' = keys u"
      and rr: "rank u' = rank u" and rkey: "r \<in> set (keys u)" and root: "parent u' r = r"
      and le: "rank u p \<le> rank u r" and keep: "\<forall>z. parent u z = z \<longrightarrow> parent u' z = z"
      by blast
    let ?u = "u'\<lparr>parent := (parent u')(x := r)\<rparr>"
    have fx: "find u x = Some (?u, r)"
      by (subst find.simps) (use False f in \<open>simp add: t p_def\<close>)
    have xr: "x \<noteq> r" using rk le by auto
    have inv: "uf_inv ?u"
      using i k rr rkey rk le less.prems(2) by (auto simp: uf_inv_def)
    have "\<forall>z. parent u z = z \<longrightarrow> parent ?u z = z"
      using keep False by auto
    with fx inv k rr rkey root xr rk le show ?thesis by auto
  qed
qed

lemma find_total:
  assumes "uf_inv u"
  shows "\<exists>u' r. find u x = Some (u', r) \<and> uf_inv u' \<and> set (keys u') = insert x (set (keys u))
    \<and> r \<in> set (keys u') \<and> parent u' r = r
    \<and> (\<forall>z \<in> set (keys u). rank u' z = rank u z)
    \<and> (\<forall>z \<in> set (keys u). parent u z = z \<longrightarrow> parent u' z = z)"
proof (cases "x \<in> set (keys u)")
  case True
  from find_key [OF assms True] show ?thesis by (auto simp: insert_absorb True)
next
  case False
  let ?t = "touch u x"
  have "find u x = Some (?t, x)"
    by (subst find.simps) (use False in \<open>simp add: touch_def\<close>)
  moreover have "uf_inv ?t" by (rule uf_inv_touch [OF assms])
  moreover have "parent ?t x = x" using False by (simp add: touch_def)
  moreover have "\<forall>z \<in> set (keys u). rank ?t z = rank u z \<and> parent ?t z = parent u z"
    using False by (auto simp: touch_def)
  ultimately show ?thesis by (auto simp: keys_touch)
qed

lemma union_total:
  assumes "uf_inv u"
  shows "\<exists>u'. union u x y = Some u' \<and> uf_inv u' \<and> set (keys u') = insert x (insert y (set (keys u)))"
proof -
  from find_total [OF assms, of x] obtain u1 rx where
    f1: "find u x = Some (u1, rx)" and i1: "uf_inv u1"
    and k1: "set (keys u1) = insert x (set (keys u))"
    and rx1: "rx \<in> set (keys u1)" and root1: "parent u1 rx = rx"
    by blast
  from find_total [OF i1, of y] obtain u2 ry where
    f2: "find u1 y = Some (u2, ry)" and i2: "uf_inv u2"
    and k2: "set (keys u2) = insert y (set (keys u1))"
    and ry2: "ry \<in> set (keys u2)" and root2: "parent u2 ry = ry"
    and keep: "\<forall>z \<in> set (keys u1). parent u1 z = z \<longrightarrow> parent u2 z = z"
    by blast
  have rxk: "rx \<in> set (keys u2)" and rootx: "parent u2 rx = rx"
    using rx1 root1 k2 keep by auto
  have ks: "set (keys u2) = insert x (insert y (set (keys u)))"
    using k1 k2 by auto
  text \<open>Linking a root \<open>b\<close> below a root \<open>a\<close> of rank at least as large.\<close>
  have link: "uf_inv (if rank u2 a = rank u2 b
        then u2\<lparr>parent := (parent u2)(b := a), rank := (rank u2)(a := rank u2 a + 1)\<rparr>
        else u2\<lparr>parent := (parent u2)(b := a)\<rparr>)"
    if a: "a \<in> set (keys u2)" "parent u2 a = a" and b: "b \<in> set (keys u2)" "parent u2 b = b"
      and ab: "a \<noteq> b" and le: "rank u2 b \<le> rank u2 a" for a b
  proof -
    have d: "distinct (keys u2)" using i2 by (simp add: uf_inv_def)
    have p: "\<And>z. z \<in> set (keys u2) \<Longrightarrow> parent u2 z \<in> set (keys u2)"
      and r: "\<And>z. z \<in> set (keys u2) \<Longrightarrow> parent u2 z \<noteq> z \<Longrightarrow> rank u2 z < rank u2 (parent u2 z)"
      using i2 by (auto simp: uf_inv_def)
    show ?thesis
    proof (cases "rank u2 a = rank u2 b")
      case True
      show ?thesis
        unfolding uf_inv_def using True d a b ab
        by (auto dest: p r simp: less_Suc_eq)
    next
      case False
      with le have "rank u2 b < rank u2 a" by simp
      then show ?thesis
        unfolding uf_inv_def using False d a b ab
        by (auto dest: p r)
    qed
  qed
  show ?thesis
  proof (cases "rx = ry")
    case True
    then have "union u x y = Some u2"
      by (simp add: union_def f1 f2)
    with i2 ks show ?thesis by simp
  next
    case ne: False
    show ?thesis
    proof (cases "rank u2 rx < rank u2 ry")
      case True
      let ?u = "if rank u2 ry = rank u2 rx
        then u2\<lparr>parent := (parent u2)(rx := ry), rank := (rank u2)(ry := rank u2 ry + 1)\<rparr>
        else u2\<lparr>parent := (parent u2)(rx := ry)\<rparr>"
      have "union u x y = Some ?u"
        using ne True by (simp add: union_def f1 f2 Let_def)
      moreover have "uf_inv ?u"
        using link [OF ry2 root2 rxk rootx] ne True by simp
      moreover have "set (keys ?u) = set (keys u2)" by simp
      ultimately show ?thesis using ks by metis
    next
      case False
      let ?u = "if rank u2 rx = rank u2 ry
        then u2\<lparr>parent := (parent u2)(ry := rx), rank := (rank u2)(rx := rank u2 rx + 1)\<rparr>
        else u2\<lparr>parent := (parent u2)(ry := rx)\<rparr>"
      have "union u x y = Some ?u"
        using ne False by (simp add: union_def f1 f2 Let_def)
      moreover have "uf_inv ?u"
        using link [OF rxk rootx ry2 root2] ne False by simp
      moreover have "set (keys ?u) = set (keys u2)" by simp
      ultimately show ?thesis using ks by metis
    qed
  qed
qed


section \<open>Groups of a union-find\<close>

lemma add_member_keys:
  "map fst (add_member r x g) = (if r \<in> fst ` set g then map fst g else map fst g @ [r])"
proof (induction g)
  case Nil
  show ?case by simp
next
  case (Cons a g)
  obtain k ms where a: "a = (k, ms)" by (cases a)
  show ?case
  proof (cases "k = r")
    case True
    with a show ?thesis by simp
  next
    case False
    with a Cons show ?thesis by simp
  qed
qed

lemma add_member_fst: "fst ` set (add_member r x g) = insert r (fst ` set g)"
proof -
  have "set (map fst (add_member r x g)) = insert r (set (map fst g))"
    unfolding add_member_keys by (cases "r \<in> fst ` set g") auto
  then show ?thesis by simp
qed

lemma add_member_ok:
  assumes "groups_ok g S" "x \<notin> S"
  shows "groups_ok (add_member r x g) (insert x S)"
  using assms
proof (induction g arbitrary: S)
  case Nil
  then show ?case by (simp add: groups_ok_def)
next
  case (Cons a g)
  obtain k ms where a: "a = (k, ms)" by (cases a)
  show ?case
  proof (cases "k = r")
    case True
    with Cons.prems a show ?thesis
      by (auto simp: groups_ok_def)
  next
    case False
    let ?S' = "set (concat (map snd g))"
    from Cons.prems a have g: "groups_ok g ?S'" and x: "x \<notin> ?S'" and xm: "x \<notin> set ms"
      by (auto simp: groups_ok_def)
    from Cons.IH [OF g x] have ih: "groups_ok (add_member r x g) (insert x ?S')" .
    have "k \<notin> fst ` set (add_member r x g)"
      using Cons.prems a False by (auto simp: add_member_fst groups_ok_def)
    with ih Cons.prems a False xm show ?thesis
      by (auto simp: groups_ok_def)
  qed
qed

lemma groups_loop_total:
  assumes "uf_inv u" "set xs \<subseteq> set (keys u)" "distinct xs" "groups_ok g S" "set xs \<inter> S = {}"
  shows "\<exists>u' g'. groups_loop xs u g = Some (u', g') \<and> uf_inv u'
    \<and> set (keys u') = set (keys u) \<and> groups_ok g' (S \<union> set xs)"
  using assms
proof (induction xs arbitrary: u g S)
  case Nil
  then show ?case by simp
next
  case (Cons x xs)
  from find_total [OF Cons.prems(1), of x] obtain u1 r where
    f: "find u x = Some (u1, r)" and i: "uf_inv u1"
    and k: "set (keys u1) = insert x (set (keys u))"
    by blast
  have k': "set (keys u1) = set (keys u)" using k Cons.prems(2) by auto
  have ok: "groups_ok (add_member r x g) (insert x S)"
    using Cons.prems by (intro add_member_ok) auto
  have "\<exists>u' g'. groups_loop xs u1 (add_member r x g) = Some (u', g') \<and> uf_inv u'
    \<and> set (keys u') = set (keys u1) \<and> groups_ok g' (insert x S \<union> set xs)"
    using Cons.prems k' by (intro Cons.IH [OF i _ _ ok]) auto
  then show ?case using f k' by auto
qed

lemma groups_total:
  assumes "uf_inv u"
  shows "\<exists>u' g. groups u = Some (u', g) \<and> uf_inv u' \<and> set (keys u') = set (keys u)
    \<and> groups_ok g (set (keys u))"
proof -
  have d: "distinct (keys u)" using assms by (simp add: uf_inv_def)
  have e: "groups_ok [] {}" by (simp add: groups_ok_def)
  from groups_loop_total [OF assms _ d e] show ?thesis
    by (simp add: groups_def)
qed

section \<open>The run reaches its end\<close>

lemma union_in:
  assumes "uf_in S u" "x \<in> S" "y \<in> S"
  shows "\<exists>u'. union u x y = Some u' \<and> uf_in S u'"
  using union_total [of u x y] assms by (auto simp: uf_in_def)

lemma find_in:
  assumes "uf_in S u" "x \<in> S"
  shows "\<exists>u' r. find u x = Some (u', r) \<and> uf_in S u'"
  using find_total [of u x] assms by (auto simp: uf_in_def)

lemma groups_in:
  assumes "uf_in S u"
  shows "\<exists>u' g. groups u = Some (u', g) \<and> uf_in S u' \<and> groups_ok g (set (keys u))
    \<and> set (keys u) \<subseteq> S"
  using groups_total [of u] assms by (auto simp: uf_in_def)

lemma uf_in_empty: "uf_in S uf_empty"
  by (simp add: uf_in_def uf_inv_empty) (simp add: uf_empty_def)

lemma all_pairs_subset: "set (all_pairs xs) \<subseteq> set xs \<times> set xs"
  by (induction xs) auto

lemma merge_pairs_in:
  assumes "uf_in S u" "set ps \<subseteq> S \<times> S"
  shows "\<exists>u'. merge_pairs fuzz it id_to_norm ps u = Some u' \<and> uf_in S u'"
  using assms
proof (induction ps arbitrary: u)
  case Nil
  then show ?case by simp
next
  case (Cons p ps)
  obtain a b where p: "p = (a, b)" by (cases p)
  with Cons.prems have ab: "a \<in> S" "b \<in> S" and ps: "set ps \<subseteq> S \<times> S" by auto
  show ?case
  proof (cases "pair_united fuzz it (dict_get id_to_norm a []) (dict_get id_to_norm b [])")
    case True
    from union_in [OF Cons.prems(1) ab] obtain u1 where
      u: "union u a b = Some u1" and i: "uf_in S u1" by blast
    from Cons.IH [OF i ps] True u p show ?thesis by simp
  next
    case False
    from Cons.IH [OF Cons.prems(1) ps] False p show ?thesis by simp
  qed
qed

lemma find_all_in:
  assumes "uf_in S u" "set xs \<subseteq> S"
  shows "\<exists>u'. find_all xs u = Some u' \<and> uf_in S u'"
  using assms
proof (induction xs arbitrary: u)
  case Nil
  then show ?case by simp
next
  case (Cons x xs)
  from find_in [OF Cons.prems(1), of x] Cons.prems(2) obtain u1 r where
    f: "find u x = Some (u1, r)" and i: "uf_in S u1" by auto
  from Cons.IH [OF i] Cons.prems(2) f show ?case by simp
qed

lemma tight_unions_in:
  assumes "uf_in S u" "set ps \<subseteq> S \<times> S"
  shows "\<exists>u'. tight_unions fuzz it id_to_norm ps u = Some u' \<and> uf_in S u'"
  using assms
proof (induction ps arbitrary: u)
  case Nil
  then show ?case by simp
next
  case (Cons p ps)
  obtain a b where p: "p = (a, b)" by (cases p)
  with Cons.prems have ab: "a \<in> S" "b \<in> S" and ps: "set ps \<subseteq> S \<times> S" by auto
  show ?case
  proof (cases "tight_united fuzz it (dict_get id_to_norm a []) (dict_get id_to_norm b [])")
    case True
    from union_in [OF Cons.prems(1) ab] obtain u1 where
      u: "union u a b = Some u1" and i: "uf_in S u1" by blast
    from Cons.IH [OF i ps] True u p show ?thesis by simp
  next
    case False
    from Cons.IH [OF Cons.prems(1) ps] False p show ?thesis by simp
  qed
qed

lemma tight_unions2_in:
  assumes "uf_in S u" "uf_in S u2" "set ps \<subseteq> S \<times> S"
  shows "\<exists>u' u2'. tight_unions2 fuzz it id_to_norm ps (u, u2) = Some (u', u2')
    \<and> uf_in S u' \<and> uf_in S u2'"
  using assms
proof (induction ps arbitrary: u u2)
  case Nil
  then show ?case by simp
next
  case (Cons p ps)
  obtain a b where p: "p = (a, b)" by (cases p)
  with Cons.prems have ab: "a \<in> S" "b \<in> S" and ps: "set ps \<subseteq> S \<times> S" by auto
  show ?case
  proof (cases "tight_united fuzz it (dict_get id_to_norm a []) (dict_get id_to_norm b [])")
    case True
    from union_in [OF Cons.prems(1) ab] obtain u1 where
      u: "union u a b = Some u1" and i: "uf_in S u1" by blast
    from union_in [OF Cons.prems(2) ab] obtain u3 where
      u': "union u2 a b = Some u3" and i': "uf_in S u3" by blast
    from Cons.IH [OF i i' ps] True u u' p show ?thesis by simp
  next
    case False
    from Cons.IH [OF Cons.prems(1,2) ps] False p show ?thesis by simp
  qed
qed


section \<open>The splitting pass ends\<close>

lemma groups_ok_members:
  assumes "groups_ok g T" "(r, ms) \<in> set g"
  shows "set ms \<subseteq> T" "ms \<noteq> []" "distinct ms"
proof -
  from assms show "ms \<noteq> []" by (auto simp: groups_ok_def)
  from assms have "set ms \<subseteq> set (concat (map snd g))" by force
  with assms show "set ms \<subseteq> T" by (simp add: groups_ok_def)
  from assms have "distinct (concat (map snd g))" by (simp add: groups_ok_def)
  with assms(2) show "distinct ms" by (auto simp: distinct_concat_iff)
qed

lemma sub_groups_total:
  assumes "set members \<subseteq> S"
  shows "\<exists>sg. sub_groups fuzz it id_to_norm members = Some sg"
proof -
  have m: "set (sort members) \<subseteq> S" using assms by simp
  from find_all_in [OF uf_in_empty m] obtain u1 where
    f: "find_all (sort members) uf_empty = Some u1" and i1: "uf_in S u1" by blast
  have "set (all_pairs (sort members)) \<subseteq> S \<times> S"
    using all_pairs_subset [of "sort members"] m by blast
  from tight_unions_in [OF i1 this] obtain u2 where
    t: "tight_unions fuzz it id_to_norm (all_pairs (sort members)) u1 = Some u2"
    and i2: "uf_in S u2" by blast
  from groups_in [OF i2] obtain u3 g where "groups u2 = Some (u3, g)" by blast
  with f t show ?thesis by (simp add: sub_groups_def)
qed

lemma count_split_total:
  assumes "\<forall>(r, ms) \<in> set og. set ms \<subseteq> S"
  shows "\<exists>n. count_split fuzz it id_to_norm og = Some n"
  using assms
proof (induction og)
  case Nil
  show ?case by simp
next
  case (Cons a og)
  obtain r ms where a: "a = (r, ms)" by (cases a)
  with Cons.prems have "set ms \<subseteq> S" by simp
  from sub_groups_total [OF this] obtain sg where
    "sub_groups fuzz it id_to_norm ms = Some sg" by blast
  moreover from Cons obtain n where "count_split fuzz it id_to_norm og = Some n" by auto
  ultimately show ?case using a by simp
qed

lemma fold_union_in:
  assumes "uf_in S u" "m0 \<in> S" "set ms \<subseteq> S"
  shows "\<exists>u'. fold (\<lambda>m u. Option.bind u (\<lambda>u. union u m0 m)) ms (Some u) = Some u' \<and> uf_in S u'"
  using assms
proof (induction ms arbitrary: u)
  case Nil
  then show ?case by simp
next
  case (Cons m ms)
  from union_in [OF Cons.prems(1,2), of m] Cons.prems(3) obtain u1 where
    u: "union u m0 m = Some u1" and i: "uf_in S u1" by auto
  from Cons.IH [OF i Cons.prems(2)] Cons.prems(3) u show ?case by simp
qed

lemma remerge_small_in:
  assumes "uf_in S u2" "\<forall>(r, ms) \<in> set g. set ms \<subseteq> S"
  shows "\<exists>u'. remerge_small oversized g u2 = Some u' \<and> uf_in S u'"
  using assms
proof (induction g arbitrary: u2)
  case Nil
  then show ?case by simp
next
  case (Cons a g)
  obtain r ms where a: "a = (r, ms)" by (cases a)
  with Cons.prems have ms: "set ms \<subseteq> S" and g: "\<forall>(r, ms) \<in> set g. set ms \<subseteq> S" by auto
  show ?case
  proof (cases "r \<notin> fst ` set oversized")
    case False
    with Cons.IH [OF Cons.prems(1) g] a show ?thesis by simp
  next
    case True
    show ?thesis
    proof (cases "sort ms")
      case Nil
      with Cons.IH [OF Cons.prems(1) g] a True show ?thesis by simp
    next
      case (Cons m0 rest)
      have "set (sort ms) \<subseteq> S" using ms by simp
      with Cons have m0: "m0 \<in> S" and rest: "set rest \<subseteq> S" by auto
      from fold_union_in [OF \<open>uf_in S u2\<close> m0 rest] obtain u3 where
        f: "fold (\<lambda>m u. Option.bind u (\<lambda>u. union u m0 m)) rest (Some u2) = Some u3"
        and i: "uf_in S u3" by blast
      from \<open>\<And>u2. uf_in S u2 \<Longrightarrow> \<forall>(r, ms) \<in> set g. set ms \<subseteq> S \<Longrightarrow>
          \<exists>u'. remerge_small oversized g u2 = Some u' \<and> uf_in S u'\<close> [OF i g]
        a True Cons f show ?thesis by simp
    qed
  qed
qed

lemma resplit_in:
  assumes "uf_in S u2" "\<forall>(r, ms) \<in> set og. set ms \<subseteq> S"
  shows "\<exists>u'. resplit fuzz it id_to_norm og u2 = Some u' \<and> uf_in S u'"
  using assms
proof (induction og arbitrary: u2)
  case Nil
  then show ?case by simp
next
  case (Cons a og)
  obtain r ms where a: "a = (r, ms)" by (cases a)
  with Cons.prems have m: "set (sort ms) \<subseteq> S" and og: "\<forall>(r, ms) \<in> set og. set ms \<subseteq> S"
    by auto
  from find_all_in [OF uf_in_empty m] obtain u1 where
    f: "find_all (sort ms) uf_empty = Some u1" and i1: "uf_in S u1" by blast
  have "set (all_pairs (sort ms)) \<subseteq> S \<times> S"
    using all_pairs_subset [of "sort ms"] m by blast
  from tight_unions2_in [OF i1 Cons.prems(1) this] obtain u1' u2' where
    t: "tight_unions2 fuzz it id_to_norm (all_pairs (sort ms)) (u1, u2) = Some (u1', u2')"
    and i2: "uf_in S u2'" by blast
  from Cons.IH [OF i2 og] a f t show ?case by simp
qed

lemma split_oversized_in:
  assumes "uf_in S u"
  shows "\<exists>u'. split_oversized fuzz it id_to_norm u = Some u' \<and> uf_in S u'"
proof -
  from groups_in [OF assms] obtain u1 g where
    gr: "groups u = Some (u1, g)" and i1: "uf_in S u1"
    and ok: "groups_ok g (set (keys u))" and ks: "set (keys u) \<subseteq> S" by blast
  have mem: "\<forall>(r, ms) \<in> set g. set ms \<subseteq> S"
    using groups_ok_members(1) [OF ok] ks by blast
  let ?og = "filter (\<lambda>(rt, members). length members > MAX_GROUP_SIZE) g"
  have omem: "\<forall>(r, ms) \<in> set ?og. set ms \<subseteq> S" using mem by auto
  show ?thesis
  proof (cases "?og = []")
    case True
    with gr i1 show ?thesis by (simp add: split_oversized_def)
  next
    case False
    from count_split_total [OF omem] obtain n where
      c: "count_split fuzz it id_to_norm ?og = Some n" by blast
    show ?thesis
    proof (cases "n > 0")
      case False
      with gr i1 c \<open>?og \<noteq> []\<close> show ?thesis by (simp add: split_oversized_def)
    next
      case True
      from remerge_small_in [OF uf_in_empty mem] obtain u2 where
        r: "remerge_small ?og g uf_empty = Some u2" and i2: "uf_in S u2" by blast
      from resplit_in [OF i2 omem] obtain u3 where
        s: "resplit fuzz it id_to_norm ?og u2 = Some u3" and i3: "uf_in S u3" by blast
      from gr c True r s i3 \<open>?og \<noteq> []\<close> show ?thesis by (simp add: split_oversized_def)
    qed
  qed
qed


section \<open>Candidate pairs are pairs of valid ids\<close>

lemma add_member_ids:
  assumes "\<forall>(k, ms) \<in> set d. set ms \<subseteq> T" "x \<in> T"
  shows "\<forall>(k, ms) \<in> set (add_member r x d). set ms \<subseteq> T"
  using assms
proof (induction d)
  case Nil
  then show ?case by simp
next
  case (Cons a d)
  obtain k ms where a: "a = (k, ms)" by (cases a)
  from Cons.prems a have ms: "set ms \<subseteq> T" and d: "\<forall>(k, ms) \<in> set d. set ms \<subseteq> T"
    by simp_all
  show ?case
  proof (cases "k = r")
    case True
    with a ms d Cons.prems(2) show ?thesis by simp
  next
    case False
    with a ms Cons.IH [OF d Cons.prems(2)] show ?thesis by simp
  qed
qed

lemma block_pairs_subset:
  assumes "\<forall>(k, ms) \<in> set bd. set ms \<subseteq> T"
  shows "set (block_pairs bd) \<subseteq> T \<times> T"
proof
  fix p assume "p \<in> set (block_pairs bd)"
  then obtain k ms where km: "(k, ms) \<in> set bd" and p: "p \<in> set (all_pairs (sort ms))"
    by (auto simp: block_pairs_def split: if_splits)
  from p all_pairs_subset [of "sort ms"] have "p \<in> set ms \<times> set ms" by auto
  with assms km show "p \<in> T \<times> T" by auto
qed

lemma blocks_in_fold_words:
  assumes "blocks_in T b" "rid \<in> T"
  shows "blocks_in T (fold (\<lambda>w b. if length w > 4
            then b\<lparr>block_word_prefix := add_member (take 5 w) rid (block_word_prefix b)\<rparr>
            else b) ws b)"
  using assms
proof (induction ws arbitrary: b)
  case Nil
  then show ?case by simp
next
  case (Cons w ws)
  have "blocks_in T (if length w > 4
      then b\<lparr>block_word_prefix := add_member (take 5 w) rid (block_word_prefix b)\<rparr> else b)"
    using Cons.prems add_member_ids [of "block_word_prefix b" T rid "take 5 w"]
    by (simp add: blocks_in_def)
  from Cons.IH [OF this Cons.prems(2)] show ?case by simp
qed

lemma blocks_in_add:
  assumes "blocks_in T b" "rid \<in> T"
  shows "blocks_in T (add_blocks (rid, nrm) b)"
proof -
  define b1 where "b1 = (if length nrm \<ge> 3
      then b\<lparr>block_prefix3 := add_member (take 3 nrm) rid (block_prefix3 b)\<rparr> else b)"
  have b1: "blocks_in T b1"
    unfolding b1_def using assms add_member_ids [of "block_prefix3 b" T rid "take 3 nrm"]
    by (simp add: blocks_in_def)
  define b2 where "b2 = (if length nrm \<ge> 4
      then b1\<lparr>block_prefix4 := add_member (take 4 nrm) rid (block_prefix4 b1)\<rparr> else b1)"
  have b2: "blocks_in T b2"
    unfolding b2_def using b1 assms(2) add_member_ids [of "block_prefix4 b1" T rid "take 4 nrm"]
    by (simp add: blocks_in_def)
  define tsig where "tsig = token_signature nrm"
  define b3 where "b3 = (if tsig \<noteq> [] \<and> length (split tsig) > 1
      then b2\<lparr>block_token := add_member tsig rid (block_token b2)\<rparr> else b2)"
  have b3: "blocks_in T b3"
    unfolding b3_def using b2 assms(2) add_member_ids [of "block_token b2" T rid tsig]
    by (simp add: blocks_in_def)
  define words where "words = filter (\<lambda>w. w \<notin> STOPWORDS \<and> length w > 2) (split nrm)"
  define b4 where "b4 = (if words \<noteq> []
      then b3\<lparr>block_first_word := add_member (hd words) rid (block_first_word b3)\<rparr> else b3)"
  have b4: "blocks_in T b4"
    unfolding b4_def using b3 assms(2) add_member_ids [of "block_first_word b3" T rid "hd words"]
    by (simp add: blocks_in_def)
  define b5 where "b5 = fold (\<lambda>w b. if length w > 4
            then b\<lparr>block_word_prefix := add_member (take 5 w) rid (block_word_prefix b)\<rparr>
            else b) words b4"
  have b5: "blocks_in T b5"
    unfolding b5_def by (rule blocks_in_fold_words [OF b4 assms(2)])
  define b6 where "b6 = (if length words \<ge> 2
      then b5\<lparr>block_compound :=
             add_member (words ! 0 @ ''_'' @ take 3 (words ! 1)) rid (block_compound b5)\<rparr>
      else b5)"
  have b6: "blocks_in T b6"
    unfolding b6_def using b5 assms(2)
      add_member_ids [of "block_compound b5" T rid "words ! 0 @ ''_'' @ take 3 (words ! 1)"]
    by (simp add: blocks_in_def)
  have "add_blocks (rid, nrm) b = b6"
    unfolding add_blocks_def Let_def prod.case b6_def b5_def b4_def b3_def b2_def b1_def
      words_def tsig_def ..
  with b6 show ?thesis by simp
qed

lemma blocks_in_fold:
  assumes "blocks_in T b" "fst ` set d \<subseteq> T"
  shows "blocks_in T (fold add_blocks d b)"
  using assms
proof (induction d arbitrary: b)
  case Nil
  then show ?case by simp
next
  case (Cons e d)
  obtain rid nrm where e: "e = (rid, nrm)" by (cases e)
  with Cons.prems have "rid \<in> T" by simp
  from blocks_in_add [OF Cons.prems(1) this] have "blocks_in T (add_blocks e b)" by (simp add: e)
  from Cons.IH [OF this] Cons.prems(2) show ?case by simp
qed

lemma candidate_pairs_subset:
  assumes "pairs_order_ok po"
  shows "set (candidate_pairs po id_to_norm) \<subseteq> fst ` set id_to_norm \<times> fst ` set id_to_norm"
proof -
  let ?T = "fst ` set id_to_norm"
  let ?b = "fold add_blocks id_to_norm no_blocks"
  have "blocks_in ?T no_blocks" by (simp add: blocks_in_def no_blocks_def)
  then have b: "blocks_in ?T ?b" by (rule blocks_in_fold) simp
  let ?ps = "concat (map block_pairs [block_prefix3 ?b, block_prefix4 ?b, block_token ?b,
      block_first_word ?b, block_word_prefix ?b, block_compound ?b])"
  have "set ?ps \<subseteq> ?T \<times> ?T"
    using b block_pairs_subset [of _ ?T] by (simp add: blocks_in_def)
  moreover have "set (po (remdups ?ps)) = set ?ps"
    using assms by (simp add: pairs_order_ok_def)
  ultimately show ?thesis by (simp add: candidate_pairs_def Let_def)
qed


section \<open>Primaries\<close>

lemma fold_assign:
  "fold (\<lambda>(mid, c, s) (id_to_group, id_is_primary).
           (id_to_group(mid \<mapsto> b), id_is_primary(mid \<mapsto> (if mid = b then 1 else 0::nat)))) xs (G, P)
   = (\<lambda>i. if i \<in> fst ` set xs then Some b else G i,
      \<lambda>i. if i \<in> fst ` set xs then Some (if i = b then 1 else 0) else P i)"
proof (induction xs arbitrary: G P)
  case Nil
  show ?case by simp
next
  case (Cons x xs)
  obtain mid c s where x: "x = (mid, c, s)" by (cases x)
  let ?F = "\<lambda>(mid, c, s) (id_to_group, id_is_primary).
           (id_to_group(mid \<mapsto> b), id_is_primary(mid \<mapsto> (if mid = b then 1 else 0::nat)))"
  have "fold ?F (x # xs) (G, P) = fold ?F xs (G(mid \<mapsto> b), P(mid \<mapsto> (if mid = b then 1 else 0)))"
    by (simp add: x)
  also have "\<dots> = (\<lambda>i. if i \<in> fst ` set xs then Some b else (G(mid \<mapsto> b)) i,
      \<lambda>i. if i \<in> fst ` set xs then Some (if i = b then 1 else 0)
          else (P(mid \<mapsto> (if mid = b then 1 else 0))) i)"
    by (rule Cons.IH)
  also have "\<dots> = (\<lambda>i. if i \<in> fst ` set (x # xs) then Some b else G i,
      \<lambda>i. if i \<in> fst ` set (x # xs) then Some (if i = b then 1 else 0) else P i)"
    by (auto simp: fun_eq_iff x)
  finally show ?case .
qed

lemma select_group_ok:
  assumes mo: "members_order_ok mo" and d: "distinct members" and ne: "members \<noteq> []"
    and ok: "assignment_ok T st" and dj: "set members \<inter> T = {}"
  shows "\<exists>st'. select_group mo id_to_cleaned id_to_type members st = Some st'
    \<and> assignment_ok (T \<union> set members) st'"
proof -
  obtain G P where st: "st = (G, P)" by (cases st)
  define f where "f = (\<lambda>mid. (mid, dict_get id_to_cleaned mid [],
                         primary_score (dict_get id_to_cleaned mid [])
                           (case id_to_type mid of None \<Rightarrow> ''Company'' | Some t \<Rightarrow> t)))"
  define scored where "scored = sort_key (\<lambda>(mid, c, s). - s) (map f (mo members))"
  from mo d have sm: "set (mo members) = set members" by (simp add: members_order_ok_def)
  have "fst ` set scored = fst ` f ` set (mo members)" by (simp add: scored_def)
  also have "\<dots> = set members" unfolding sm by (force simp: f_def)
  finally have ids: "fst ` set scored = set members" .
  with ne have "scored \<noteq> []" by auto
  then obtain best c s rest where sc: "scored = (best, c, s) # rest"
    by (cases scored) auto
  with ids have best: "best \<in> set members" by auto
  define st' where "st' = fold (\<lambda>(mid, c, s) (id_to_group, id_is_primary).
           (id_to_group(mid \<mapsto> best), id_is_primary(mid \<mapsto> (if mid = best then 1 else 0)))) scored (G, P)"
  have r: "select_group mo id_to_cleaned id_to_type members st = Some st'"
    unfolding select_group_def Let_def f_def [symmetric] scored_def [symmetric] st'_def st
    by (simp add: sc)
  have e: "st' = (\<lambda>i. if i \<in> set members then Some best else G i,
      \<lambda>i. if i \<in> set members then Some (if i = best then 1 else 0) else P i)"
    unfolding st'_def fold_assign ids ..
  have "assignment_ok (T \<union> set members) st'"
    unfolding assignment_ok_def e prod.case
  proof (intro conjI ballI)
    from ok st show "dom (\<lambda>i. if i \<in> set members then Some best else G i) = T \<union> set members"
      by (auto simp: assignment_ok_def dom_def split: if_splits)
  next
    fix i assume i: "i \<in> T \<union> set members"
    show "\<exists>b\<in>T \<union> set members.
            (if i \<in> set members then Some best else G i) = Some b \<and>
            (if b \<in> set members then Some best else G b) = Some b \<and>
            (if i \<in> set members then Some (if i = best then 1 else 0) else P i)
              = Some (if i = b then 1 else 0)"
    proof (cases "i \<in> set members")
      case True
      with best show ?thesis by (intro bexI [of _ best]) simp_all
    next
      case False
      with i have iT: "i \<in> T" by simp
      with ok st obtain b where b: "b \<in> T" "G i = Some b" "G b = Some b"
          "P i = Some (if i = b then 1 else 0)"
        by (auto simp: assignment_ok_def)
      from b(1) dj have "b \<notin> set members" by auto
      with False b show ?thesis by (intro bexI [of _ b]) simp_all
    qed
  qed
  with r show ?thesis by blast
qed

lemma groups_ok_Cons:
  assumes "groups_ok ((r, ms) # g) S"
  shows "groups_ok g (set (concat (map snd g)))" "S = set ms \<union> set (concat (map snd g))"
    "set ms \<inter> set (concat (map snd g)) = {}" "distinct ms" "ms \<noteq> []"
  using assms by (auto simp: groups_ok_def)

lemma select_primaries_ok:
  assumes mo: "members_order_ok mo" and g: "groups_ok g S"
    and ok: "assignment_ok T st" and dj: "S \<inter> T = {}"
  shows "\<exists>st'. select_primaries mo id_to_cleaned id_to_type g st = Some st'
    \<and> assignment_ok (T \<union> S) st'"
  using g ok dj
proof (induction g arbitrary: st T S)
  case Nil
  then show ?case by (simp add: groups_ok_def)
next
  case (Cons a g)
  obtain r ms where a: "a = (r, ms)" by (cases a)
  note c = groups_ok_Cons [OF Cons.prems(1) [unfolded a]]
  from c(2) Cons.prems(3) have dj1: "set ms \<inter> T = {}" by auto
  from select_group_ok [OF mo c(4) c(5) Cons.prems(2) dj1, of id_to_cleaned id_to_type]
  obtain st1 where s1: "select_group mo id_to_cleaned id_to_type ms st = Some st1"
    and ok1: "assignment_ok (T \<union> set ms) st1" by blast
  from c(2) c(3) Cons.prems(3) have dj2: "set (concat (map snd g)) \<inter> (T \<union> set ms) = {}" by auto
  from Cons.IH [OF c(1) ok1 dj2]
  obtain st' where s2: "select_primaries mo id_to_cleaned id_to_type g st1 = Some st'"
    and ok2: "assignment_ok (T \<union> set ms \<union> set (concat (map snd g))) st'" by blast
  have "T \<union> set ms \<union> set (concat (map snd g)) = T \<union> S" using c(2) by auto
  with ok2 s1 s2 show ?case by (simp add: a)
qed

lemma singletons_ok:
  assumes "assignment_ok T st"
  shows "assignment_ok (T \<union> set rids) (singletons rids st)"
  using assms
proof (induction rids arbitrary: st T)
  case Nil
  then show ?case by (simp add: singletons_def)
next
  case (Cons rid rids)
  obtain G P where st: "st = (G, P)" by (cases st)
  define st1 where "st1 = (if rid \<notin> dom G then (G(rid \<mapsto> rid), P(rid \<mapsto> 1)) else (G, P))"
  have "assignment_ok (insert rid T) st1"
  proof (cases "rid \<in> dom G")
    case True
    with Cons.prems st have "insert rid T = T" by (auto simp: assignment_ok_def)
    with True Cons.prems st show ?thesis by (simp add: st1_def)
  next
    case False
    with Cons.prems st have nT: "rid \<notin> T" by (auto simp: assignment_ok_def)
    have "assignment_ok (insert rid T) (G(rid \<mapsto> rid), P(rid \<mapsto> 1))"
      unfolding assignment_ok_def prod.case
    proof (intro conjI ballI)
      from Cons.prems st show "dom (G(rid \<mapsto> rid)) = insert rid T"
        by (auto simp: assignment_ok_def)
    next
      fix i assume i: "i \<in> insert rid T"
      show "\<exists>b\<in>insert rid T. (G(rid \<mapsto> rid)) i = Some b \<and> (G(rid \<mapsto> rid)) b = Some b \<and>
              (P(rid \<mapsto> 1)) i = Some (if i = b then 1 else 0)"
      proof (cases "i = rid")
        case True
        then show ?thesis by (intro bexI [of _ rid]) simp_all
      next
        case False
        with i have "i \<in> T" by simp
        with Cons.prems st obtain b where b: "b \<in> T" "G i = Some b" "G b = Some b"
            "P i = Some (if i = b then 1 else 0)"
          by (auto simp: assignment_ok_def)
        from b(1) nT have "b \<noteq> rid" by auto
        with False b show ?thesis by (intro bexI [of _ b]) simp_all
      qed
    qed
    with False show ?thesis by (simp add: st1_def)
  qed
  from Cons.IH [OF this] have "assignment_ok (insert rid T \<union> set rids) (singletons rids st1)" .
  moreover have "singletons (rid # rids) st = singletons rids st1"
    by (simp add: singletons_def st st1_def)
  ultimately show ?case by simp
qed

section \<open>Dictionaries\<close>

lemma dict_set_keys: "fst ` set (dict_set k v d) = insert k (fst ` set d)"
proof (induction d)
  case Nil
  show ?case by simp
next
  case (Cons a d)
  obtain k' v' where a: "a = (k', v')" by (cases a)
  show ?case unfolding a using Cons.IH by (cases "k' = k") auto
qed

lemma dict_fold_keys:
  "fst ` set (fold (\<lambda>(k, v) d. dict_set k v d) kvs d) = fst ` set kvs \<union> fst ` set d"
proof (induction kvs arbitrary: d)
  case Nil
  show ?case by simp
next
  case (Cons a kvs)
  obtain k v where a: "a = (k, v)" by (cases a)
  show ?case unfolding a by (auto simp: Cons.IH dict_set_keys)
qed

lemma dict_of_keys: "fst ` set (dict_of kvs) = fst ` set kvs"
  by (simp add: dict_of_def dict_fold_keys)


section \<open>The run as a whole\<close>

lemma main_rows:
  assumes mo: "members_order_ok mo"
  shows "\<exists>G P T. main fuzz it po mo all_rows
            = Some (map (make_row G P) (map make_record all_rows))
      \<and> assignment_ok T (G, P)
      \<and> fst ` set (valid_records (map make_record all_rows)) \<subseteq> T
      \<and> (pairs_order_ok po \<longrightarrow> T = fst ` set (valid_records (map make_record all_rows)))"
proof -
  define recs where "recs = map make_record all_rows"
  define valid where "valid = valid_records recs"
  define c where "c = dict_of valid"
  define n where "n = dict_of (map (\<lambda>(rid, cleaned). (rid, normalize cleaned)) valid)"
  define t where "t = map_of (rev (map (\<lambda>r. (r_id r, r_type r)) recs))"
  define cp where "cp = candidate_pairs po n"
  define V where "V = fst ` set valid"
  define S where "S = V \<union> fst ` set cp \<union> snd ` set cp"
  have cV: "fst ` set c = V" by (simp add: c_def V_def dict_of_keys)
  have nV: "fst ` set n = V"
    unfolding n_def V_def dict_of_keys by (force simp: image_iff)
  have cpS: "set cp \<subseteq> S \<times> S" unfolding S_def by force
  from merge_pairs_in [OF uf_in_empty cpS, of fuzz it n]
  obtain u1 where m1: "merge_pairs fuzz it n cp uf_empty = Some u1" and u1: "uf_in S u1" by blast
  from split_oversized_in [OF u1, of fuzz it n]
  obtain u2 where m2: "split_oversized fuzz it n u1 = Some u2" and u2: "uf_in S u2" by blast
  from groups_in [OF u2]
  obtain u3 g where m3: "groups u2 = Some (u3, g)" and g: "groups_ok g (set (keys u2))"
    and k: "set (keys u2) \<subseteq> S" by blast
  have a0: "assignment_ok {} (Map.empty, Map.empty)" by (simp add: assignment_ok_def)
  from select_primaries_ok [OF mo g a0, of c t]
  obtain st where m4: "select_primaries mo c t g (Map.empty, Map.empty) = Some st"
    and st: "assignment_ok (set (keys u2)) st" by auto
  obtain G P where m5: "singletons (map fst c) st = (G, P)" by (cases "singletons (map fst c) st")
  from singletons_ok [OF st, of "map fst c"] m5 cV
  have ok: "assignment_ok (set (keys u2) \<union> V) (G, P)" by simp
  have "main fuzz it po mo all_rows =
      Option.bind (merge_pairs fuzz it n cp uf_empty) (\<lambda>u.
        Option.bind (split_oversized fuzz it n u) (\<lambda>u.
        Option.bind (groups u) (\<lambda>(u, groups).
        Option.bind (select_primaries mo c t groups (Map.empty, Map.empty)) (\<lambda>st.
          case singletons (map fst c) st of
            (id_to_group, id_is_primary) \<Rightarrow>
              Some (map (make_row id_to_group id_is_primary) recs)))))"
    unfolding main_def Let_def recs_def valid_def c_def n_def t_def cp_def ..
  then have r: "main fuzz it po mo all_rows = Some (map (make_row G P) recs)"
    by (simp add: m1 m2 m3 m4 m5)
  have "pairs_order_ok po \<longrightarrow> set (keys u2) \<union> V = V"
  proof
    assume "pairs_order_ok po"
    from candidate_pairs_subset [OF this, of n] have "set cp \<subseteq> V \<times> V"
      by (simp add: cp_def nV)
    then have "S = V" unfolding S_def by force
    with k show "set (keys u2) \<union> V = V" by auto
  qed
  with r ok show ?thesis
    unfolding recs_def [symmetric] valid_def [symmetric] V_def [symmetric]
    by (intro exI [of _ G] exI [of _ P] exI [of _ "set (keys u2) \<union> V"]) simp
qed

lemma master_id_make_row: "master_id (make_row G P r) = r_id r"
  by (simp add: make_row_def Let_def)

lemma r_id_make_record: "r_id (make_record x) = fst x"
  by (cases x) (simp add: make_record_def Let_def)

lemma row_fields:
  "group_id (make_row G P r)
     = (if r_valid r \<noteq> 0 then (case G (r_id r) of None \<Rightarrow> r_id r | Some g \<Rightarrow> g) else r_id r)"
  "is_primary (make_row G P r)
     = (if r_valid r \<noteq> 0 then (case P (r_id r) of None \<Rightarrow> 1 | Some p \<Rightarrow> p) else 0)"
  "row_is_valid (make_row G P r) = r_valid r"
  by (simp_all add: make_row_def Let_def)

lemma classify_empty: "classify_garbage [] = Some Empty"
  by (simp add: classify_garbage_def)

lemma make_record_valid:
  "r_valid (make_record x) = 1 \<or> r_valid (make_record x) = 0"
  "r_valid (make_record x) = 1 \<Longrightarrow> r_cleaned (make_record x) \<noteq> []"
proof -
  obtain rid label rtype where x: "x = (rid, label, rtype)" by (cases x)
  show "r_valid (make_record x) = 1 \<or> r_valid (make_record x) = 0"
    by (simp add: x make_record_def Let_def)
  show "r_cleaned (make_record x) \<noteq> []" if "r_valid (make_record x) = 1"
  proof
    assume "r_cleaned (make_record x) = []"
    then have "r_reason (make_record x) = Some Empty"
      by (simp add: x make_record_def Let_def classify_empty)
    then have "r_valid (make_record x) = 0"
      by (simp add: x make_record_def Let_def)
    with that show False by simp
  qed
qed

lemma count_one:
  assumes "distinct (map f xs)" "x \<in> set xs"
  shows "length (filter (\<lambda>y. f y = f x) xs) = 1"
  using assms
proof (induction xs)
  case Nil
  then show ?case by simp
next
  case (Cons a xs)
  show ?case
  proof (cases "f a = f x")
    case True
    with Cons.prems have "filter (\<lambda>y. f y = f x) xs = []"
      by (auto simp: filter_empty_conv image_iff)
    with True show ?thesis by simp
  next
    case False
    with Cons.prems have "x \<in> set xs" by auto
    with Cons.IH Cons.prems False show ?thesis by simp
  qed
qed

lemma groups_empty: "groups uf_empty = Some (uf_empty, [])"
  by (simp add: groups_def uf_empty_def)

lemma split_oversized_empty: "split_oversized fuzz it id_to_norm uf_empty = Some uf_empty"
  by (simp add: split_oversized_def groups_empty Let_def)

lemma candidate_pairs_empty: "candidate_pairs (\<lambda>ps. ps) [] = []"
  by (simp add: candidate_pairs_def no_blocks_def block_pairs_def)

lemma make_record_null:
  "make_record (rid, None, None)
     = \<lparr>r_id = rid, r_cleaned = [], r_original = [], r_type = ''Unknown'', r_valid = 0,
        r_reason = Some Empty\<rparr>"
  by (simp add: make_record_def Let_def clean_name_def classify_empty)

lemma main_null_label:
  "main fuzz it (\<lambda>ps. ps) mo [(rid, None, None)]
     = Some [\<lparr>company_name = [], original_name = [], master_id = rid, source_type = ''Unknown'',
              group_id = rid, is_primary = 0, row_is_valid = 0, filter_reason = Some Empty\<rparr>]"
proof -
  show ?thesis
    unfolding main_def Let_def
    by (simp add: valid_records_def dict_of_def candidate_pairs_empty split_oversized_empty groups_empty
        singletons_def make_record_null make_row_def)
qed


section \<open>Conservation of the rows\<close>

text \<open>
  C2: for every list of rows read from \<^verbatim>\<open>masters\<close> the run reaches the insertion, the rows
  written carry the ids of the rows read, in the same order, so there are as many rows
  written as read, invalid ones included; and when the ids read are distinct, every id
  read is the \<^verbatim>\<open>master_id\<close> of exactly one row written.
\<close>

theorem row_count_conservation:
  assumes "members_order_ok mo"
  shows "\<exists>rows. main fuzz it po mo all_rows = Some rows
    \<and> map master_id rows = map fst all_rows
    \<and> length rows = length all_rows
    \<and> (distinct (map fst all_rows) \<longrightarrow>
         (\<forall>x \<in> set all_rows. length (filter (\<lambda>r. master_id r = fst x) rows) = 1))"
proof -
  from main_rows [OF assms, of fuzz it po all_rows]
  obtain G P where m: "main fuzz it po mo all_rows
      = Some (map (make_row G P) (map make_record all_rows))" by blast
  define rows where "rows = map (make_row G P) (map make_record all_rows)"
  have ids: "map master_id rows = map fst all_rows"
    by (simp add: rows_def master_id_make_row r_id_make_record)
  then have len: "length rows = length all_rows"
    using length_map [of master_id rows] by simp
  have rw: "rows = map (\<lambda>x. make_row G P (make_record x)) all_rows"
    by (simp add: rows_def)
  have one: "length (filter (\<lambda>r. master_id r = fst x) rows) = 1"
    if d: "distinct (map fst all_rows)" and x: "x \<in> set all_rows" for x
  proof -
    have "length (filter (\<lambda>r. master_id r = fst x) rows)
        = length (filter (\<lambda>y. fst y = fst x) all_rows)"
      unfolding rw filter_map
      by (simp add: comp_def master_id_make_row r_id_make_record)
    with count_one [OF d x] show ?thesis by simp
  qed
  from m ids len one show ?thesis unfolding rows_def [symmetric] by blast
qed

theorem row_count_conservation_witness:
  "members_order_ok (\<lambda>ms. ms)
   \<and> (\<exists>rows. main \<lparr>token_sort_ratio = fuzz_ratio, token_set_ratio = fuzz_ratio,
                    partial_ratio = fuzz_ratio\<rparr> (\<lambda>xs. xs) (\<lambda>ps. ps) (\<lambda>ms. ms)
                [(7, None, None), (3, Some ''Acme Tools'', Some ''Company'')] = Some rows
        \<and> map master_id rows = [7, 3] \<and> length rows = 2)"
  using row_count_conservation [of "\<lambda>ms. ms"
      "\<lparr>token_sort_ratio = fuzz_ratio, token_set_ratio = fuzz_ratio, partial_ratio = fuzz_ratio\<rparr>"
      "\<lambda>xs. xs" "\<lambda>ps. ps" "[(7, None, None), (3, Some ''Acme Tools'', Some ''Company'')]"]
  by (auto simp: members_order_ok_def)


section \<open>Cleaning a label of word characters\<close>

lemma first_some_None: "(\<And>x. x \<in> set xs \<Longrightarrow> x = None) \<Longrightarrow> first_some xs = None"
proof (induction xs)
  case Nil
  show ?case by simp
next
  case (Cons a xs)
  then have "a = None" by simp
  with Cons show ?case by simp
qed

lemma bt_Rep_fail:
  assumes "s = [] \<or> \<not> P (hd s)"
  shows "bt (Rep (Suc lo) hi P # items) p s = None"
proof -
  from assms have "takeWhile P s = []" by (cases s) auto
  then show ?thesis by (simp add: Let_def split: option.splits)
qed

lemma bt_Rep0_skip:
  assumes "s = [] \<or> \<not> P (hd s)"
  shows "bt (Rep 0 hi P # items) p s = bt items p s"
proof -
  from assms have "takeWhile P s = []" by (cases s) auto
  then show ?thesis
    by (cases "bt items p s") (simp_all add: Let_def split: option.splits)
qed

lemma sub_scan_id:
  assumes "\<And>p c cs. Q c \<Longrightarrow> \<forall>d \<in> set cs. Q d \<Longrightarrow> match_at pat p (c # cs) = None"
    and "\<forall>c \<in> set s. Q c"
  shows "sub_scan pat repl p 0 s = s"
  using assms(2)
proof (induction s arbitrary: p)
  case Nil
  show ?case by simp
next
  case (Cons c cs)
  then have "match_at pat p (c # cs) = None" by (intro assms(1)) auto
  with Cons show ?case by simp
qed

lemma word_code:
  assumes "isword c"
  shows "48 \<le> code c" "code c \<notin> {58, 59, 61, 63, 64, 91, 92, 93, 96, 123, 124, 125, 133, 160, 183}"
proof -
  have u: "code CHR ''_'' = 95" by (simp add: code_def)
  from assms u show "48 \<le> code c"
    unfolding isword_def in_range_def by (elim disjE) auto
  from assms u show "code c \<notin> {58, 59, 61, 63, 64, 91, 92, 93, 96, 123, 124, 125, 133, 160, 183}"
    unfolding isword_def in_range_def by (elim disjE) auto
qed

lemma word_not_space: "isword c \<Longrightarrow> \<not> isspace c"
  using word_code [of c] by (auto simp: isspace_def)

lemma junk_code:
  assumes "leading_junk c \<or> trailing_junk c \<or> c = CHR 0xB7 \<or> c = CHR ''('' \<or> c = CHR '',''"
  shows "isspace c \<or> code c < 48
    \<or> code c \<in> {58, 59, 61, 63, 64, 91, 92, 93, 96, 123, 124, 125, 133, 160, 183}"
  using assms unfolding leading_junk_def trailing_junk_def
  by (elim disjE insertE emptyE) (simp_all add: code_def)

lemma word_not_junk:
  assumes "isword c"
  shows "\<not> leading_junk c" "\<not> trailing_junk c" "c \<noteq> CHR 0xB7" "c \<noteq> CHR ''(''" "c \<noteq> CHR '',''"
  using junk_code [of c] word_code [OF assms] word_not_space [OF assms] by auto

lemma linkedin_word:
  assumes "isword c"
  shows "match_at LINKEDIN_SUFFIX_RE p (c # cs) = None"
  unfolding match_at_def
proof (rule first_some_None)
  fix x assume "x \<in> set (map (\<lambda>items. bt items p (c # cs)) LINKEDIN_SUFFIX_RE)"
  then obtain rest where "x = bt (Rep 0 None isspace # One (\<lambda>d. d = CHR 0xB7) # rest) p (c # cs)"
    by (auto simp: LINKEDIN_SUFFIX_RE_def)
  with assms show "x = None"
    by (simp add: bt_Rep0_skip word_not_space word_not_junk)
qed

lemma paren_word:
  assumes "isword c"
  shows "match_at PAREN_RE p (c # cs) = None"
  using assms
  by (simp add: match_at_def PAREN_RE_def bt_Rep0_skip word_not_space word_not_junk)

lemma leading_junk_word:
  assumes "isword c"
  shows "match_at LEADING_JUNK_RE p (c # cs) = None"
  using assms
  by (simp add: match_at_def LEADING_JUNK_RE_def bt_Rep_fail [unfolded One_nat_def [symmetric]]
      word_not_junk del: bt.simps(7))

lemma trailing_junk_word:
  assumes "isword c"
  shows "match_at TRAILING_JUNK_RE p (c # cs) = None"
  using assms
  by (simp add: match_at_def TRAILING_JUNK_RE_def bt_Rep_fail [unfolded One_nat_def [symmetric]]
      word_not_junk del: bt.simps(7))

lemma location_word:
  assumes "isword c"
  shows "match_at TRAILING_LOCATION_RE p (c # cs) = None"
  unfolding match_at_def
proof (rule first_some_None)
  fix x assume "x \<in> set (map (\<lambda>items. bt items p (c # cs)) TRAILING_LOCATION_RE)"
  then obtain rest where
    "x = bt (Rep (Suc 0) None (\<lambda>d. d = CHR '','' \<or> isspace d) # rest) p (c # cs)"
    by (auto simp: TRAILING_LOCATION_RE_def)
  with assms show "x = None"
    by (simp add: bt_Rep_fail word_not_space word_not_junk del: bt.simps(7))
qed

lemma spaces_word:
  assumes "isword c"
  shows "match_at SPACES p (c # cs) = None"
  using assms
  by (simp add: match_at_def SPACES_def bt_Rep_fail [unfolded One_nat_def [symmetric]]
      word_not_space del: bt.simps(7))

lemma amp_word:
  assumes "isword c" "\<forall>d \<in> set cs. isword d"
  shows "match_at SPACE_BEFORE_AMP p (c # cs) = None"
proof -
  from assms(2) have "cs = [] \<or> \<not> isspace (hd cs)"
    by (cases cs) (auto simp: word_not_space)
  then have "bt [Rep (Suc 0) None isspace, One (\<lambda>d. d = CHR ''&''), One isword] (Some c) cs = None"
    by (rule bt_Rep_fail)
  then show ?thesis
    by (simp add: match_at_def SPACE_BEFORE_AMP_def del: bt.simps(7))
qed

lemma strip_word:
  assumes "\<forall>c \<in> set s. isword c"
  shows "strip s = s"
proof -
  have "dropWhile isspace xs = xs" if "\<forall>c \<in> set xs. isword c" for xs
    using that by (cases xs) (auto simp: word_not_space)
  from this [of s] this [of "rev s"] assms show ?thesis by (simp add: strip_def)
qed

lemma clean_name_word:
  assumes w: "\<forall>c \<in> set s. isword c"
  shows "clean_name s = s"
proof (cases "s = []")
  case True
  then show ?thesis by (simp add: clean_name_def)
next
  case False
  have 1: "re_sub LINKEDIN_SUFFIX_RE r s = s" for r
    unfolding re_sub_def by (rule sub_scan_id [of isword]) (simp_all add: linkedin_word w)
  have 2: "re_sub PAREN_RE r s = s" for r
    unfolding re_sub_def by (rule sub_scan_id [of isword]) (simp_all add: paren_word w)
  have 3: "re_sub LEADING_JUNK_RE r s = s" for r
    unfolding re_sub_def by (rule sub_scan_id [of isword]) (simp_all add: leading_junk_word w)
  have 4: "re_sub TRAILING_JUNK_RE r s = s" for r
    unfolding re_sub_def by (rule sub_scan_id [of isword]) (simp_all add: trailing_junk_word w)
  have 5: "re_sub TRAILING_LOCATION_RE r s = s" for r
    unfolding re_sub_def by (rule sub_scan_id [of isword]) (simp_all add: location_word w)
  have 6: "re_sub SPACES r s = s" for r
    unfolding re_sub_def by (rule sub_scan_id [of isword]) (simp_all add: spaces_word w)
  have 7: "re_sub SPACE_BEFORE_AMP r s = s" for r
    unfolding re_sub_def by (rule sub_scan_id [of isword]) (simp_all add: amp_word w)
  have 8: "strip_locations 3 s = s"
    by (simp add: numeral_3_eq_3 4 5)
  from False show ?thesis
    by (simp add: clean_name_def strip_word [OF w] 1 2 3 4 6 7 8)
qed


section \<open>A run on two records of the same name and a record without a label\<close>

lemma clean_acme: "clean_name ''acme'' = ''acme''"
  by (rule clean_name_word) (simp add: isword_def in_range_def code_def)

lemma classify_acme: "classify_garbage ''acme'' = None"
proof -
  have "\<not> matches SPECIAL_ONLY_RE ''acme''" by (simp add: SPECIAL_ONLY_RE_def rx_eval)
  moreover have "\<not> matches NUMERIC_ONLY_RE ''acme''" by (simp add: NUMERIC_ONLY_RE_def rx_eval)
  moreover have "\<not> matches PLACEHOLDER_RE ''acme''" by (simp add: PLACEHOLDER_RE_def rx_eval)
  moreover have "\<not> matches JOB_TITLE_RE ''acme''" by (simp add: JOB_TITLE_RE_def rx_eval)
  moreover have "\<not> matches ROLE_PATTERN_RE ''acme''" by (simp add: ROLE_PATTERN_RE_def rx_eval)
  moreover have "\<not> matches INDEPENDENT_RE ''acme''" by (simp add: INDEPENDENT_RE_def rx_eval)
  moreover have "\<not> matches NON_COMPANY_RE ''acme''"
    by (simp add: NON_COMPANY_RE_def NON_COMPANY_WORDS_def rx_eval)
  ultimately show ?thesis by (simp add: classify_garbage_def)
qed

lemma normalize_acme: "normalize ''acme'' = ''acme''"
  by (simp add: norm_eval)

lemma make_record_acme:
  "make_record (rid, Some ''acme'', None)
     = \<lparr>r_id = rid, r_cleaned = ''acme'', r_original = ''acme'', r_type = ''Unknown'',
        r_valid = 1, r_reason = None\<rparr>"
  by (simp add: make_record_def Let_def clean_acme classify_acme)

lemma split_acme: "split ''acme'' = [''acme'']"
  by (simp add: isspace_def code_def)

lemma token_signature_acme: "token_signature ''acme'' = ''acme''"
  unfolding token_signature_def split_acme by (simp add: STOPWORDS_def join_def)

lemma add_blocks_acme:
  "add_blocks (rid, ''acme'') b
     = b\<lparr>block_prefix3 := add_member ''acm'' rid (block_prefix3 b),
         block_prefix4 := add_member ''acme'' rid (block_prefix4 b),
         block_first_word := add_member ''acme'' rid (block_first_word b)\<rparr>"
  unfolding add_blocks_def token_signature_acme split_acme prod.case
  by (simp add: STOPWORDS_def Let_def isspace_def code_def)

lemma blocks_acme:
  "fold add_blocks [(1, ''acme''), (2, ''acme'')] no_blocks
     = \<lparr>block_prefix3 = [(''acm'', [1, 2])], block_prefix4 = [(''acme'', [1, 2])],
        block_token = [], block_first_word = [(''acme'', [1, 2])], block_word_prefix = [],
        block_compound = []\<rparr>"
  by (simp add: add_blocks_acme no_blocks_def)

lemma candidate_pairs_acme:
  "candidate_pairs (\<lambda>ps. ps) [(1, ''acme''), (2, ''acme'')] = [(1, 2)]"
  unfolding candidate_pairs_def blocks_acme Let_def
  by (simp add: block_pairs_def MAX_BLOCK_def)

lemma find_new: "x \<notin> set (keys u) \<Longrightarrow> find u x = Some (touch u x, x)"
  by (subst find.simps) (simp add: touch_def)

lemma find_root: "x \<in> set (keys u) \<Longrightarrow> parent u x = x \<Longrightarrow> find u x = Some (u, x)"
  by (subst find.simps) (simp add: touch_def)

lemma find_child:
  assumes "x \<in> set (keys u)" "parent u x = r" "r \<noteq> x" "r \<in> set (keys u)" "parent u r = r"
  shows "find u x = Some (u, r)"
proof -
  from assms(1) have t: "touch u x = u" by (simp add: touch_def)
  from assms(2) have "(parent u)(x := r) = parent u" by auto
  then have "u\<lparr>parent := (parent u)(x := r)\<rparr> = u" by simp
  with assms show ?thesis
    by (subst find.simps) (simp add: t find_root)
qed

lemma union_first:
  "\<exists>U. union uf_empty 1 2 = Some U \<and> keys U = [1, 2] \<and> parent U 1 = 1 \<and> parent U 2 = 1"
proof -
  define u1 where "u1 = touch uf_empty 1"
  define u2 where "u2 = touch u1 2"
  have k1: "keys u1 = [1]" by (simp add: u1_def touch_def uf_empty_def)
  have f1: "find uf_empty 1 = Some (u1, 1)"
    unfolding u1_def by (rule find_new) (simp add: uf_empty_def)
  have f2: "find u1 2 = Some (u2, 2)"
    unfolding u2_def by (rule find_new) (simp add: k1)
  have p: "keys u2 = [1, 2]" "parent u2 1 = 1" "rank u2 1 = 0" "rank u2 2 = 0"
    by (simp_all add: u2_def u1_def touch_def uf_empty_def)
  show ?thesis
    by (simp add: union_def f1 f2 p Let_def)
qed

lemma groups_pair:
  assumes "keys U = [1, 2]" "parent U 1 = 1" "parent U 2 = 1"
  shows "groups U = Some (U, [(1, [1, 2])])"
proof -
  have 1: "find U 1 = Some (U, 1)" by (rule find_root) (simp_all add: assms)
  have 2: "find U 2 = Some (U, 1)" by (rule find_child) (simp_all add: assms)
  show ?thesis by (simp add: groups_def assms(1) 1 2)
qed

lemma select_primaries_pair:
  assumes "dict_get c 1 [] = dict_get c 2 []" "t 1 = t 2"
  shows "select_primaries (\<lambda>ms. ms) c t [(1, [1, 2])] (Map.empty, Map.empty)
      = Some ([1 \<mapsto> 1, 2 \<mapsto> 1], [1 \<mapsto> 1, 2 \<mapsto> 0])"
  using assms by (simp add: select_group_def Let_def)

lemma main_acme:
  "main fuzz it (\<lambda>ps. ps) (\<lambda>ms. ms)
      [(1, Some ''acme'', None), (2, Some ''acme'', None), (3, None, None)]
     = Some [\<lparr>company_name = ''acme'', original_name = ''acme'', master_id = 1,
               source_type = ''Unknown'', group_id = 1, is_primary = 1, row_is_valid = 1,
               filter_reason = None\<rparr>,
             \<lparr>company_name = ''acme'', original_name = ''acme'', master_id = 2,
               source_type = ''Unknown'', group_id = 1, is_primary = 0, row_is_valid = 1,
               filter_reason = None\<rparr>,
             \<lparr>company_name = [], original_name = [], master_id = 3,
               source_type = ''Unknown'', group_id = 3, is_primary = 0, row_is_valid = 0,
               filter_reason = Some Empty\<rparr>]"
proof -
  define all_rows :: "master_row list"
    where "all_rows = [(1, Some ''acme'', None), (2, Some ''acme'', None), (3, None, None)]"
  define recs where "recs = map make_record all_rows"
  define valid where "valid = valid_records recs"
  define c where "c = dict_of valid"
  define n where "n = dict_of (map (\<lambda>(rid, cleaned). (rid, normalize cleaned)) valid)"
  define t where "t = map_of (rev (map (\<lambda>r. (r_id r, r_type r)) recs))"
  define cp where "cp = candidate_pairs (\<lambda>ps. ps) n"
  have e: "main fuzz it (\<lambda>ps. ps) (\<lambda>ms. ms) all_rows =
      Option.bind (merge_pairs fuzz it n cp uf_empty) (\<lambda>u.
        Option.bind (split_oversized fuzz it n u) (\<lambda>u.
        Option.bind (groups u) (\<lambda>(u, groups).
        Option.bind (select_primaries (\<lambda>ms. ms) c t groups (Map.empty, Map.empty)) (\<lambda>st.
          case singletons (map fst c) st of
            (id_to_group, id_is_primary) \<Rightarrow>
              Some (map (make_row id_to_group id_is_primary) recs)))))"
    unfolding main_def Let_def recs_def valid_def c_def n_def t_def cp_def ..
  have recs_eq: "recs =
      [\<lparr>r_id = 1, r_cleaned = ''acme'', r_original = ''acme'', r_type = ''Unknown'',
         r_valid = 1, r_reason = None\<rparr>,
       \<lparr>r_id = 2, r_cleaned = ''acme'', r_original = ''acme'', r_type = ''Unknown'',
         r_valid = 1, r_reason = None\<rparr>,
       \<lparr>r_id = 3, r_cleaned = [], r_original = [], r_type = ''Unknown'', r_valid = 0,
         r_reason = Some Empty\<rparr>]"
    by (simp add: recs_def all_rows_def make_record_acme make_record_null)
  have valid_eq: "valid = [(1, ''acme''), (2, ''acme'')]"
    by (simp add: valid_def recs_eq valid_records_def)
  have c_eq: "c = [(1, ''acme''), (2, ''acme'')]"
    by (simp add: c_def valid_eq dict_of_def)
  have n_eq: "n = [(1, ''acme''), (2, ''acme'')]"
    by (simp add: n_def valid_eq dict_of_def normalize_acme)
  have cp_eq: "cp = [(1, 2)]"
    by (simp add: cp_def n_eq candidate_pairs_acme)
  have t_eq: "t 1 = t 2"
    by (simp add: t_def recs_eq)
  from union_first obtain U where U: "union uf_empty 1 2 = Some U"
    and k: "keys U = [1, 2]" "parent U 1 = 1" "parent U 2 = 1" by blast
  note g = groups_pair [OF k]
  have mp: "merge_pairs fuzz it n cp uf_empty = Some U"
    by (simp add: n_eq cp_eq pair_united_def dict_get_def U)
  have sp: "split_oversized fuzz it n U = Some U"
    by (simp add: split_oversized_def g MAX_GROUP_SIZE_def)
  have s: "select_primaries (\<lambda>ms. ms) c t [(1, [1, 2])] (Map.empty, Map.empty)
      = Some ([1 \<mapsto> 1, 2 \<mapsto> 1], [1 \<mapsto> 1, 2 \<mapsto> 0])"
    by (rule select_primaries_pair) (simp_all add: c_eq dict_get_def t_eq)
  have sg: "singletons (map fst c) ([1 \<mapsto> 1, 2 \<mapsto> 1], [1 \<mapsto> 1, 2 \<mapsto> 0])
      = ([1 \<mapsto> 1, 2 \<mapsto> 1], [1 \<mapsto> 1, 2 \<mapsto> 0])"
    by (simp add: c_eq singletons_def)
  have "main fuzz it (\<lambda>ps. ps) (\<lambda>ms. ms) all_rows
      = Some (map (make_row [1 \<mapsto> 1, 2 \<mapsto> 1] [1 \<mapsto> 1, 2 \<mapsto> 0]) recs)"
    by (simp only: e mp sp g s sg Option.bind.simps prod.case)
  then show ?thesis
    unfolding all_rows_def by (simp add: recs_eq make_row_def)
qed


section \<open>One primary for each group\<close>

text \<open>
  C1, as stated: every \<^verbatim>\<open>group_id\<close> of the output, those of invalid records included, has
  exactly one row with \<^verbatim>\<open>is_primary = 1\<close>. A row read with a \<^verbatim>\<open>NULL\<close> label is invalid; it is
  written as a group of its own with \<^verbatim>\<open>is_primary = 0\<close>, so its group has no primary row.
\<close>

theorem one_primary_counterexample:
  "main \<lparr>token_sort_ratio = fuzz_ratio, token_set_ratio = fuzz_ratio, partial_ratio = fuzz_ratio\<rparr>
      (\<lambda>xs. xs) (\<lambda>ps. ps) (\<lambda>ms. ms) [(1, None, None)]
     = Some [\<lparr>company_name = [], original_name = [], master_id = 1, source_type = ''Unknown'',
              group_id = 1, is_primary = 0, row_is_valid = 0, filter_reason = Some Empty\<rparr>]
   \<and> filter (\<lambda>r. group_id r = 1 \<and> is_primary r = 1)
        [\<lparr>company_name = [], original_name = [], master_id = 1, source_type = ''Unknown'',
          group_id = 1, is_primary = 0, row_is_valid = 0, filter_reason = Some Empty\<rparr>] = []"
  by (simp add: main_null_label)

text \<open>
  C1, amended: when the ids read are distinct, the run writes rows such that every
  \<^verbatim>\<open>group_id\<close> carried by a valid row has exactly one row with \<^verbatim>\<open>is_primary = 1\<close>, while
  every invalid row is a group of its own, its \<^verbatim>\<open>group_id\<close> being its \<^verbatim>\<open>master_id\<close>, with
  \<^verbatim>\<open>is_primary = 0\<close> and no primary row at all.
\<close>

theorem one_primary_per_valid_cluster:
  assumes po: "pairs_order_ok po" and mo: "members_order_ok mo"
    and d: "distinct (map fst all_rows)"
  shows "\<exists>rows. main fuzz it po mo all_rows = Some rows \<and>
     (\<forall>r \<in> set rows.
        (row_is_valid r = 1 \<longrightarrow>
           length (filter (\<lambda>r'. group_id r' = group_id r \<and> is_primary r' = 1) rows) = 1)
      \<and> (row_is_valid r \<noteq> 1 \<longrightarrow>
           group_id r = master_id r \<and> is_primary r = 0
           \<and> filter (\<lambda>r'. group_id r' = group_id r \<and> is_primary r' = 1) rows = []))"
proof -
  define recs where "recs = map make_record all_rows"
  define V where "V = fst ` set (valid_records recs)"
  from main_rows [OF mo, of fuzz it po all_rows] po
  obtain G P where m: "main fuzz it po mo all_rows = Some (map (make_row G P) recs)"
    and ok: "assignment_ok V (G, P)"
    unfolding recs_def V_def by blast
  define rows where "rows = map (make_row G P) recs"
  have ids: "map r_id recs = map fst all_rows"
    by (simp add: recs_def r_id_make_record)
  with d have dist: "distinct (map r_id recs)" by simp
  have v01: "r_valid r = 1 \<or> r_valid r = 0" if "r \<in> set recs" for r
  proof -
    from that obtain x where "r = make_record x" by (auto simp: recs_def)
    with make_record_valid(1) [of x] show ?thesis by simp
  qed
  have vne: "r_cleaned r \<noteq> []" if "r \<in> set recs" "r_valid r = 1" for r
  proof -
    from that obtain x where "r = make_record x" by (auto simp: recs_def)
    with make_record_valid(2) [of x] that(2) show ?thesis by simp
  qed
  have vV: "(r_valid r = 1) = (r_id r \<in> V)" if r: "r \<in> set recs" for r
  proof
    assume "r_valid r = 1"
    with r vne [OF r] show "r_id r \<in> V"
      by (force simp: V_def valid_records_def)
  next
    assume "r_id r \<in> V"
    then obtain r' where r': "r' \<in> set recs" "r_valid r' = 1" "r_id r' = r_id r"
      by (auto simp: V_def valid_records_def)
    from dist have "inj_on r_id (set recs)" by (simp add: distinct_map)
    with r r' have "r' = r" by (auto dest: inj_onD)
    with r' show "r_valid r = 1" by simp
  qed
  have GP: "\<exists>b\<in>V. G i = Some b \<and> G b = Some b \<and> P i = Some (if i = b then 1 else 0)"
    if "i \<in> V" for i
    using ok that by (simp add: assignment_ok_def)
  have key: "(group_id (make_row G P r') = g \<and> is_primary (make_row G P r') = 1)
      = (r_id r' = g \<and> g \<in> V \<and> G g = Some g)" if r': "r' \<in> set recs" for r' g
  proof (cases "r_valid r' = 1")
    case True
    with vV [OF r'] have iV: "r_id r' \<in> V" by simp
    from GP [OF iV] obtain b where b: "b \<in> V" "G (r_id r') = Some b" "G b = Some b"
        "P (r_id r') = Some (if r_id r' = b then 1 else 0)" by blast
    from True b have "group_id (make_row G P r') = b"
        "is_primary (make_row G P r') = (if r_id r' = b then 1 else 0)"
      by (simp_all add: row_fields)
    with b iV show ?thesis by auto
  next
    case False
    with v01 [OF r'] have z: "r_valid r' = 0" by simp
    from False vV [OF r'] have "r_id r' \<notin> V" by simp
    with z show ?thesis by (auto simp: row_fields)
  qed
  have cnt: "length (filter (\<lambda>r'. group_id r' = g \<and> is_primary r' = 1) rows)
      = (if g \<in> V \<and> G g = Some g then 1 else 0)" for g
  proof -
    have "filter (\<lambda>r'. group_id r' = g \<and> is_primary r' = 1) rows
        = map (make_row G P)
            (filter (\<lambda>r'. group_id (make_row G P r') = g \<and> is_primary (make_row G P r') = 1) recs)"
      by (simp add: rows_def filter_map comp_def)
    also have "filter (\<lambda>r'. group_id (make_row G P r') = g \<and> is_primary (make_row G P r') = 1) recs
        = filter (\<lambda>r'. r_id r' = g \<and> g \<in> V \<and> G g = Some g) recs"
      by (rule filter_cong [OF refl]) (rule key)
    finally have e: "length (filter (\<lambda>r'. group_id r' = g \<and> is_primary r' = 1) rows)
        = length (filter (\<lambda>r'. r_id r' = g \<and> g \<in> V \<and> G g = Some g) recs)" by simp
    show ?thesis
    proof (cases "g \<in> V \<and> G g = Some g")
      case True
      then obtain r0 where r0: "r0 \<in> set recs" "r_id r0 = g"
        by (auto simp: V_def valid_records_def)
      from count_one [OF dist r0(1)] r0(2) True e show ?thesis by simp
    next
      case False
      with e show ?thesis by auto
    qed
  qed
  have "(row_is_valid r = 1 \<longrightarrow>
           length (filter (\<lambda>r'. group_id r' = group_id r \<and> is_primary r' = 1) rows) = 1)
      \<and> (row_is_valid r \<noteq> 1 \<longrightarrow>
           group_id r = master_id r \<and> is_primary r = 0
           \<and> filter (\<lambda>r'. group_id r' = group_id r \<and> is_primary r' = 1) rows = [])"
    if "r \<in> set rows" for r
  proof -
    from that obtain r0 where r0: "r0 \<in> set recs" "r = make_row G P r0"
      by (auto simp: rows_def)
    show ?thesis
    proof (cases "r_valid r0 = 1")
      case True
      with vV [OF r0(1)] have iV: "r_id r0 \<in> V" by simp
      from GP [OF iV] obtain b where b: "b \<in> V" "G (r_id r0) = Some b" "G b = Some b" by blast
      from True b have "group_id r = b" by (simp add: r0 row_fields)
      with cnt [of b] b True show ?thesis by (simp add: r0(2) row_fields)
    next
      case False
      with v01 [OF r0(1)] have z: "r_valid r0 = 0" by simp
      from False vV [OF r0(1)] have nV: "r_id r0 \<notin> V" by simp
      from z have g: "group_id r = r_id r0" "is_primary r = 0" "master_id r = r_id r0"
        by (simp_all add: r0 row_fields master_id_make_row)
      from cnt [of "r_id r0"] nV
      have "filter (\<lambda>r'. group_id r' = r_id r0 \<and> is_primary r' = 1) rows = []" by simp
      with g z show ?thesis by (simp add: r0(2) row_fields)
    qed
  qed
  with m show ?thesis unfolding rows_def [symmetric] by blast
qed

theorem one_primary_per_valid_cluster_witness:
  "pairs_order_ok (\<lambda>ps. ps) \<and> members_order_ok (\<lambda>ms. ms)
   \<and> distinct (map fst [(1::int, Some ''acme'', None::string option), (2, Some ''acme'', None),
                         (3, None, None)])
   \<and> main \<lparr>token_sort_ratio = fuzz_ratio, token_set_ratio = fuzz_ratio,
             partial_ratio = fuzz_ratio\<rparr> (\<lambda>xs. xs) (\<lambda>ps. ps) (\<lambda>ms. ms)
        [(1, Some ''acme'', None), (2, Some ''acme'', None), (3, None, None)]
     = Some [\<lparr>company_name = ''acme'', original_name = ''acme'', master_id = 1,
               source_type = ''Unknown'', group_id = 1, is_primary = 1, row_is_valid = 1,
               filter_reason = None\<rparr>,
             \<lparr>company_name = ''acme'', original_name = ''acme'', master_id = 2,
               source_type = ''Unknown'', group_id = 1, is_primary = 0, row_is_valid = 1,
               filter_reason = None\<rparr>,
             \<lparr>company_name = [], original_name = [], master_id = 3,
               source_type = ''Unknown'', group_id = 3, is_primary = 0, row_is_valid = 0,
               filter_reason = Some Empty\<rparr>]
   \<and> length (filter (\<lambda>r'. group_id r' = 1 \<and> is_primary r' = 1)
        [\<lparr>company_name = ''acme'', original_name = ''acme'', master_id = 1,
               source_type = ''Unknown'', group_id = 1, is_primary = 1, row_is_valid = 1,
               filter_reason = None\<rparr>,
             \<lparr>company_name = ''acme'', original_name = ''acme'', master_id = 2,
               source_type = ''Unknown'', group_id = 1, is_primary = 0, row_is_valid = 1,
               filter_reason = None\<rparr>,
             \<lparr>company_name = [], original_name = [], master_id = 3,
               source_type = ''Unknown'', group_id = 3, is_primary = 0, row_is_valid = 0,
               filter_reason = Some Empty\<rparr>]) = 1"
  using one_primary_per_valid_cluster [of "\<lambda>ps. ps" "\<lambda>ms. ms"
      "[(1, Some ''acme'', None), (2, Some ''acme'', None), (3, None, None)]"
      "\<lparr>token_sort_ratio = fuzz_ratio, token_set_ratio = fuzz_ratio, partial_ratio = fuzz_ratio\<rparr>"
      "\<lambda>xs. xs"]
  by (simp add: pairs_order_ok_def members_order_ok_def main_acme)


end
